theory Spec2Isabelle
  imports Main "HOL-Library.Sublist" "HOL-Library.Product_Lexorder"
begin

section \<open>Data model (db.py, ensure_schema)\<close>

text \<open>
  The worker keeps all of its state in MySQL tables. A connection is modelled by the
  contents of the tables it sees; a point in time (the value of \<open>NOW()\<close>, a
  \<open>DATETIME\<close> with a resolution of one second) is an integer number of seconds.
\<close>

datatype status = NEW | PENDING | PROCESSING | DONE | FAILED

text \<open>One row of \<open>agent_events\<close>. The column \<open>id\<close> is called \<open>id_col\<close>.\<close>

record event =
  id_col :: nat
  event_type :: string
  payload_json :: "string option"
  status :: status
  priority :: int
  attempts :: int
  max_attempts :: int
  available_at :: int
  locked_by :: "string option"
  locked_at :: "int option"
  last_error :: "string option"
  done_at :: "int option"
  correlation_id :: "string option"
  created_by_user_id :: "int option"
  created_at :: int
  updated_at :: int

text \<open>One row of \<open>agent_runs\<close> (its \<open>status\<close> column is \<open>run_status\<close>).\<close>

record run =
  actor :: string
  event_id :: "nat option"
  run_status :: string
  error_text :: "string option"

text \<open>One row of \<open>idempotency_locks\<close>, without its primary key \<open>lock_key\<close>.\<close>

record lock =
  lock_locked_by :: string
  expires_at :: int

text \<open>
  The tables behind a connection. \<open>auto_increment\<close> is the next value of the
  \<open>AUTO_INCREMENT\<close> counter of \<open>agent_events\<close>.
\<close>

record db =
  agent_events :: "event list"
  auto_increment :: nat
  agent_runs :: "run list"
  idempotency_locks :: "string \<rightharpoonup> lock"

text \<open>The constants imported from \<open>dental_agents.config\<close>.\<close>

record config =
  WORKER_ID :: string
  LOCK_TTL_SECONDS :: int
  MAX_EVENT_ATTEMPTS :: int

text \<open>
  The answers of \<open>_has_column(conn, "agent_events", col)\<close> for the optional columns.
\<close>

record schema =
  has_available_at :: bool
  has_priority :: bool
  has_max_attempts :: bool
  has_created_by :: bool
  has_corr :: bool
  has_locked_by :: bool
  has_locked_at :: bool

text \<open>The table that \<open>ensure_schema\<close> creates has every column.\<close>

definition full_schema :: schema where
  "full_schema = \<lparr>has_available_at = True, has_priority = True, has_max_attempts = True,
     has_created_by = True, has_corr = True, has_locked_by = True, has_locked_at = True\<rparr>"

text \<open>Documents as \<open>json.loads\<close> returns them and \<open>json.dumps\<close> takes them.\<close>

datatype json =
    JNull
  | JBool bool
  | JInt int
  | JFloat int int
  | JString string
  | JArray "json list"
  | JObject "(string \<times> json) list"

section \<open>Statements shared by the operations\<close>

text \<open>\<open>UPDATE agent_events SET ... WHERE id = eid\<close>: every row with that id is rewritten.\<close>

definition update_where_id :: "nat \<Rightarrow> (event \<Rightarrow> event) \<Rightarrow> event list \<Rightarrow> event list" where
  "update_where_id eid f rows = map (\<lambda>e. if id_col e = eid then f e else e) rows"

text \<open>\<open>SELECT ... FROM agent_events WHERE id = eid\<close> followed by \<open>fetchone()\<close>.\<close>

definition select_by_id :: "nat \<Rightarrow> event list \<Rightarrow> event option" where
  "select_by_id eid rows = find (\<lambda>e. id_col e = eid) rows"

section \<open>log_run\<close>

definition log_run :: "string \<Rightarrow> nat option \<Rightarrow> string \<Rightarrow> string option \<Rightarrow> db \<Rightarrow> db" where
  "log_run a eid st err d =
     d\<lparr>agent_runs := agent_runs d @
        [\<lparr>actor = a, event_id = eid, run_status = st, error_text = err\<rparr>]\<rparr>"

section \<open>enqueue_event\<close>

text \<open>
  The inserted row. \<open>json.dumps\<close> is a parameter. A column that the table lacks
  keeps the default of \<open>ensure_schema\<close> in the model; \<open>run_at = None\<close> leaves
  \<open>available_at\<close> to the column default \<open>CURRENT_TIMESTAMP\<close>, as the source's comment
  says. \<open>payload or {}\<close> is the payload itself for a dictionary (the only falsy
  dictionary is the empty one). \<open>max_attempts or MAX_EVENT_ATTEMPTS\<close> replaces both
  \<open>None\<close> and \<open>0\<close>; a correlation id is stored when it is a non-empty string, cut to 64
  characters.
\<close>

definition enqueue_row ::
  "config \<Rightarrow> schema \<Rightarrow> ((string \<times> json) list \<Rightarrow> string) \<Rightarrow> int \<Rightarrow> nat \<Rightarrow> string \<Rightarrow>
   (string \<times> json) list \<Rightarrow> status \<Rightarrow> int \<Rightarrow> int option \<Rightarrow> int option \<Rightarrow> int option \<Rightarrow>
   string option \<Rightarrow> event" where
  "enqueue_row cfg sch dumps now new_id etype payload st prio run_at max_att created_by corr =
     \<lparr>id_col = new_id,
      event_type = etype,
      payload_json = Some (dumps payload),
      status = st,
      priority = (if has_priority sch then prio else 50),
      attempts = 0,
      max_attempts =
        (if has_max_attempts sch
         then (case max_att of
                 None \<Rightarrow> MAX_EVENT_ATTEMPTS cfg
               | Some m \<Rightarrow> if m = 0 then MAX_EVENT_ATTEMPTS cfg else m)
         else 8),
      available_at =
        (if has_available_at sch
         then (case run_at of None \<Rightarrow> now | Some t \<Rightarrow> t)
         else now),
      locked_by = None,
      locked_at = None,
      last_error = None,
      done_at = None,
      correlation_id =
        (if has_corr sch
         then (case corr of
                 None \<Rightarrow> None
               | Some c \<Rightarrow> if c = [] then None else Some (take 64 c))
         else None),
      created_by_user_id = (if has_created_by sch then created_by else None),
      created_at = now,
      updated_at = now\<rparr>"

text \<open>The insert returns \<open>cur.lastrowid\<close> and advances the counter. No commit.\<close>

definition enqueue_event ::
  "config \<Rightarrow> schema \<Rightarrow> ((string \<times> json) list \<Rightarrow> string) \<Rightarrow> int \<Rightarrow> string \<Rightarrow>
   (string \<times> json) list \<Rightarrow> status \<Rightarrow> int \<Rightarrow> int option \<Rightarrow> int option \<Rightarrow> int option \<Rightarrow>
   string option \<Rightarrow> db \<Rightarrow> nat \<times> db" where
  "enqueue_event cfg sch dumps now etype payload st prio run_at max_att created_by corr d =
     (let new_id = auto_increment d
      in (new_id,
          d\<lparr>agent_events := agent_events d @
               [enqueue_row cfg sch dumps now new_id etype payload st prio run_at max_att
                  created_by corr],
            auto_increment := Suc new_id\<rparr>))"

section \<open>lock_next_event\<close>

text \<open>
  The \<open>WHERE\<close> clause: \<open>status IN ('NEW','PENDING')\<close>, then
  \<open>available_at <= NOW()\<close> when the column exists, then
  \<open>locked_at IS NULL OR locked_at < DATE_SUB(NOW(), INTERVAL ttl SECOND)\<close> when that
  column exists.
\<close>

definition eligible :: "config \<Rightarrow> schema \<Rightarrow> int \<Rightarrow> event \<Rightarrow> bool" where
  "eligible cfg sch now e =
     ((status e = NEW \<or> status e = PENDING) \<and>
      (if has_available_at sch then available_at e \<le> now else True) \<and>
      (if has_locked_at sch
       then (case locked_at e of
               None \<Rightarrow> True
             | Some t \<Rightarrow> t < now - LOCK_TTL_SECONDS cfg)
       else True))"

text \<open>\<open>ORDER BY priority ASC, id ASC\<close>.\<close>

definition order_key :: "event \<Rightarrow> int \<times> nat" where
  "order_key e = (priority e, id_col e)"

text \<open>The \<open>SELECT ... LIMIT 1 FOR UPDATE\<close> with \<open>fetchone()\<close>.\<close>

definition select_candidate :: "config \<Rightarrow> schema \<Rightarrow> int \<Rightarrow> event list \<Rightarrow> event option" where
  "select_candidate cfg sch now rows =
     (case sort_key order_key (filter (eligible cfg sch now) rows) of
        [] \<Rightarrow> None
      | r # _ \<Rightarrow> Some r)"

text \<open>The \<open>SET\<close> list of the claiming \<open>UPDATE\<close>, one of three by the columns present.\<close>

definition claim_row :: "config \<Rightarrow> schema \<Rightarrow> int \<Rightarrow> event \<Rightarrow> event" where
  "claim_row cfg sch now e =
     (if has_locked_by sch \<and> has_locked_at sch then
        e\<lparr>status := PROCESSING, attempts := attempts e + 1,
          locked_by := Some (WORKER_ID cfg), locked_at := Some now, updated_at := now\<rparr>
      else if has_locked_at sch then
        e\<lparr>status := PROCESSING, attempts := attempts e + 1,
          locked_at := Some now, updated_at := now\<rparr>
      else
        e\<lparr>status := PROCESSING, attempts := attempts e + 1, updated_at := now\<rparr>)"

text \<open>
  \<open>now_sel\<close> is \<open>NOW()\<close> in the \<open>SELECT\<close>, \<open>now_upd\<close> is \<open>NOW()\<close> in the
  \<open>UPDATE\<close>. The result is the row as re-read after the update, or \<open>None\<close>.
\<close>

definition lock_next_event ::
  "config \<Rightarrow> schema \<Rightarrow> int \<Rightarrow> int \<Rightarrow> db \<Rightarrow> event option \<times> db" where
  "lock_next_event cfg sch now_sel now_upd d =
     (case select_candidate cfg sch now_sel (agent_events d) of
        None \<Rightarrow> (None, d)
      | Some row \<Rightarrow>
          (let eid = id_col row;
               d' = d\<lparr>agent_events :=
                      update_where_id eid (claim_row cfg sch now_upd) (agent_events d)\<rparr>
           in (select_by_id eid (agent_events d'), d')))"

section \<open>mark_done\<close>

definition done_row :: "int \<Rightarrow> event \<Rightarrow> event" where
  "done_row now e =
     e\<lparr>status := DONE, done_at := Some now, locked_by := None, locked_at := None,
       updated_at := now\<rparr>"

definition mark_done :: "int \<Rightarrow> nat \<Rightarrow> db \<Rightarrow> db" where
  "mark_done now eid d = d\<lparr>agent_events := update_where_id eid (done_row now) (agent_events d)\<rparr>"

section \<open>mark_failed\<close>

text \<open>
  \<open>min(600, max(10, (2 ** min(attempts, 8)) * 5))\<close>, then \<open>int(backoff)\<close>. For a
  negative count Python's power is a float below 1, its product with 5 is below 10, and
  the result is 10.
\<close>

definition backoff :: "int \<Rightarrow> int" where
  "backoff n =
     (if n < 0 then 10
      else min 600 (max 10 ((2 ^ nat (min n 8)) * 5)))"

text \<open>\<open>r = cur.fetchone() or {}\<close>, \<open>int(r.get("attempts") or 0)\<close>.\<close>

definition read_attempts :: "event option \<Rightarrow> int" where
  "read_attempts r = (case r of None \<Rightarrow> 0 | Some e \<Rightarrow> attempts e)"

text \<open>\<open>int(r.get("max_attempts") or MAX_EVENT_ATTEMPTS)\<close>: a stored 0 is falsy.\<close>

definition read_max_attempts :: "config \<Rightarrow> event option \<Rightarrow> int" where
  "read_max_attempts cfg r =
     (case r of
        None \<Rightarrow> MAX_EVENT_ATTEMPTS cfg
      | Some e \<Rightarrow> if max_attempts e = 0 then MAX_EVENT_ATTEMPTS cfg else max_attempts e)"

definition failed_row :: "int \<Rightarrow> string \<Rightarrow> event \<Rightarrow> event" where
  "failed_row now err e =
     e\<lparr>status := FAILED, last_error := Some err, locked_by := None, locked_at := None,
       updated_at := now\<rparr>"

definition retry_row :: "int \<Rightarrow> string \<Rightarrow> int \<Rightarrow> event \<Rightarrow> event" where
  "retry_row now err delay e =
     e\<lparr>status := NEW, last_error := Some err, locked_by := None, locked_at := None,
       available_at := now + delay, updated_at := now\<rparr>"

text \<open>Which of the two \<open>UPDATE\<close> statements \<open>mark_failed\<close> runs.\<close>

datatype failed_branch = TerminalUpdate | RetryUpdate

definition mark_failed_branch :: "config \<Rightarrow> nat \<Rightarrow> db \<Rightarrow> failed_branch" where
  "mark_failed_branch cfg eid d =
     (let r = select_by_id eid (agent_events d)
      in if read_attempts r \<ge> read_max_attempts cfg r then TerminalUpdate else RetryUpdate)"

definition mark_failed :: "config \<Rightarrow> int \<Rightarrow> nat \<Rightarrow> string \<Rightarrow> db \<Rightarrow> db" where
  "mark_failed cfg now eid err d =
     (let r = select_by_id eid (agent_events d);
          att = read_attempts r;
          delay = backoff att
      in case mark_failed_branch cfg eid d of
           TerminalUpdate \<Rightarrow>
             d\<lparr>agent_events := update_where_id eid (failed_row now err) (agent_events d)\<rparr>
         | RetryUpdate \<Rightarrow>
             d\<lparr>agent_events := update_where_id eid (retry_row now err delay) (agent_events d)\<rparr>)"

section \<open>Idempotency lock\<close>

text \<open>
  Modelled from the spec: \<open>dental_agents/idempotency.py\<close>, whose \<open>claim\<close> the worker
  imports, is not among the sources. The spec's words: the call attempts to insert a lock
  row for the key; if the row exists and \<open>expires_at > now\<close> the claim fails and returns
  false; if it exists but has expired, the row is re-armed (new \<open>locked_by\<close>,
  \<open>expires_at = now + ttl\<close>) and the claim succeeds.
\<close>

definition claim :: "config \<Rightarrow> int \<Rightarrow> string \<Rightarrow> int \<Rightarrow> db \<Rightarrow> bool \<times> db" where
  "claim cfg now key ttl_seconds d =
     (let armed = \<lparr>lock_locked_by = WORKER_ID cfg, expires_at = now + ttl_seconds\<rparr>
      in case idempotency_locks d key of
           None \<Rightarrow> (True, d\<lparr>idempotency_locks := (idempotency_locks d)(key \<mapsto> armed)\<rparr>)
         | Some l \<Rightarrow>
             if expires_at l > now then (False, d)
             else (True, d\<lparr>idempotency_locks := (idempotency_locks d)(key \<mapsto> armed)\<rparr>))"

section \<open>worker.py\<close>

text \<open>Python exceptions that the modelled code can meet.\<close>

datatype exn = JSONDecodeError | OtherError string

text \<open>
  \<open>_parse_payload\<close> (the same text in \<open>worker.py\<close> and \<open>main_worker.py\<close>).
  \<open>json.loads\<close> is a parameter that returns a document or raises. The argument is
  \<open>row.get("payload_json") or "{}"\<close>; \<open>except Exception\<close> turns every raise into
  the empty dictionary.
\<close>

definition payload_text :: "event \<Rightarrow> string" where
  "payload_text row =
     (case payload_json row of
        None \<Rightarrow> ''{}''
      | Some s \<Rightarrow> if s = [] then ''{}'' else s)"

definition parse_payload :: "(string \<Rightarrow> exn + json) \<Rightarrow> event \<Rightarrow> exn + json" where
  "parse_payload loads row =
     (case loads (payload_text row) of
        Inl e \<Rightarrow> Inr (JObject [])
      | Inr v \<Rightarrow> Inr v)"

text \<open>The four module-level agent objects.\<close>

datatype agent = APPT | INV | REV | CASE

text \<open>A call \<open>agent.handle(conn, event_type, event_id, payload)\<close>.\<close>

type_synonym handle_call = "agent \<times> string \<times> nat \<times> json"

text \<open>
  The calls \<open>_dispatch\<close> makes, in order, by the branch of its \<open>if\<close> chain that the
  event type takes; the last branch is the unknown event, which is ignored.
\<close>

definition dispatch_calls :: "nat \<Rightarrow> string \<Rightarrow> json \<Rightarrow> handle_call list" where
  "dispatch_calls eid etype payload =
     (if etype = ''AppointmentCreated'' then
        [(APPT, etype, eid, payload), (REV, etype, eid, payload)]
      else if etype = ''AppointmentCompleted'' then
        [(APPT, etype, eid, payload), (INV, etype, eid, payload),
         (REV, etype, eid, payload), (CASE, etype, eid, payload)]
      else if etype = ''CaseUpdated'' \<or> etype = ''CaseGenerateSummary'' then
        [(CASE, etype, eid, payload)]
      else if etype = ''AppointmentAutoScheduleRequested'' \<or> etype = ''AppointmentMonitorTick'' then
        [(APPT, etype, eid, payload)]
      else if prefix ''Inventory'' etype \<or> etype = ''InventoryDailyTick'' then
        [(INV, etype, eid, payload)]
      else if prefix ''Revenue'' etype \<or> etype = ''ARRankAndNotify'' \<or> etype = ''RevenueDailyTick'' then
        [(REV, etype, eid, payload)]
      else [])"

text \<open>
  The handlers are external: a handler takes the call and the tables and returns the
  tables as it leaves them, with the text of the exception when it raises. A raise ends
  the sequence; what the handlers wrote before stays in the open transaction.
\<close>

type_synonym handler = "handle_call \<Rightarrow> db \<Rightarrow> db \<times> string option"

fun run_calls :: "handler \<Rightarrow> handle_call list \<Rightarrow> db \<Rightarrow> db \<times> string option" where
  "run_calls h [] d = (d, None)"
| "run_calls h (c # cs) d =
     (case h c d of
        (d', Some err) \<Rightarrow> (d', Some err)
      | (d', None) \<Rightarrow> run_calls h cs d')"

definition dispatch :: "handler \<Rightarrow> nat \<Rightarrow> string \<Rightarrow> json \<Rightarrow> db \<Rightarrow> db \<times> string option" where
  "dispatch h eid etype payload d = run_calls h (dispatch_calls eid etype payload) d"

text \<open>
  \<open>_enqueue_periodics\<close>: three lock claims, each followed by an insert when it
  succeeds. All statements see the same \<open>now\<close>.
\<close>

definition enqueue_periodics ::
  "config \<Rightarrow> schema \<Rightarrow> ((string \<times> json) list \<Rightarrow> string) \<Rightarrow> int \<Rightarrow> db \<Rightarrow> db" where
  "enqueue_periodics cfg sch dumps now d =
     (let (b1, d1) = claim cfg now ''cron:minute:appt_monitor'' 55 d;
          d2 = (if b1 then snd (enqueue_event cfg sch dumps now ''AppointmentMonitorTick'' []
                                  NEW 10 None None None None d1) else d1);
          (b2, d3) = claim cfg now ''cron:hour:inventory'' 3600 d2;
          d4 = (if b2 then snd (enqueue_event cfg sch dumps now ''InventoryDailyTick''
                                  [(''horizon_days'', JInt 30)] NEW 10 None None None None d3)
                else d3);
          (b3, d5) = claim cfg now ''cron:hour:revenue'' 3600 d4
      in if b3 then snd (enqueue_event cfg sch dumps now ''RevenueDailyTick'' []
                           NEW 10 None None None None d5) else d5)"

text \<open>
  The part of the body of \<open>run_loop\<close> that follows a successful \<open>lock_next_event\<close>:
  the payload is parsed, then \<open>STARTED\<close> is logged, the event dispatched, and the
  event finished by \<open>mark_done\<close> or, when a handler raised, by \<open>mark_failed\<close> with the
  text of the exception. \<open>now\<close> is \<open>NOW()\<close> in the finishing \<open>UPDATE\<close>. A raise
  of \<open>_parse_payload\<close> would reach the outer \<open>except\<close>, which rolls back.
\<close>

definition process_event ::
  "config \<Rightarrow> (string \<Rightarrow> exn + json) \<Rightarrow> handler \<Rightarrow> int \<Rightarrow> event \<Rightarrow> db \<Rightarrow> db" where
  "process_event cfg loads h now row d =
     (let eid = id_col row;
          etype = event_type row
      in case parse_payload loads row of
           Inl e \<Rightarrow> d
         | Inr payload \<Rightarrow>
             (let d1 = log_run ''worker'' (Some eid) ''STARTED'' None d
              in case dispatch h eid etype payload d1 of
                   (d2, None) \<Rightarrow>
                     log_run ''worker'' (Some eid) ''DONE'' None (mark_done now eid d2)
                 | (d2, Some err) \<Rightarrow>
                     log_run ''worker'' (Some eid) ''FAILED'' (Some err)
                       (mark_failed cfg now eid err d2)))"

section \<open>Definitions that follow the specification\<close>

text \<open>
  The specification's backoff policy, in its own words:
  \<open>backoff(n) = clamp(2^min(n,8) * 5, lower=10, upper=600)\<close>.
\<close>

definition clamp :: "int \<Rightarrow> int \<Rightarrow> int \<Rightarrow> int" where
  "clamp x lower upper = max lower (min upper x)"

definition backoff_spec :: "nat \<Rightarrow> int" where
  "backoff_spec n = clamp (2 ^ min n 8 * 5) 10 600"

text \<open>
  The limit that \<open>mark_failed\<close> compares the attempts of a stored row with: the stored
  \<open>max_attempts\<close>, or the configured default when the stored value is 0.
\<close>

definition effective_max_attempts :: "config \<Rightarrow> event \<Rightarrow> int" where
  "effective_max_attempts cfg e =
     (if max_attempts e = 0 then MAX_EVENT_ATTEMPTS cfg else max_attempts e)"

text \<open>
  The specification's reading of the lock table: a key is held at \<open>now\<close> when its row
  exists with \<open>expires_at > now\<close>; arming writes the row of the claiming worker with
  \<open>expires_at = now + ttl\<close>.
\<close>

definition lock_active :: "int \<Rightarrow> string \<Rightarrow> db \<Rightarrow> bool" where
  "lock_active now key d =
     (case idempotency_locks d key of None \<Rightarrow> False | Some l \<Rightarrow> expires_at l > now)"

definition arm :: "config \<Rightarrow> int \<Rightarrow> string \<Rightarrow> int \<Rightarrow> db \<Rightarrow> db" where
  "arm cfg now key ttl d =
     d\<lparr>idempotency_locks := (idempotency_locks d)
          (key \<mapsto> \<lparr>lock_locked_by = WORKER_ID cfg, expires_at = now + ttl\<rparr>)\<rparr>"

text \<open>The event types and prefixes that \<open>_dispatch\<close> knows.\<close>

definition known_event_type :: "string \<Rightarrow> bool" where
  "known_event_type etype =
     (etype \<in> set [''AppointmentCreated'', ''AppointmentCompleted'', ''CaseUpdated'',
        ''CaseGenerateSummary'', ''AppointmentAutoScheduleRequested'', ''AppointmentMonitorTick'',
        ''InventoryDailyTick'', ''ARRankAndNotify'', ''RevenueDailyTick'']
      \<or> prefix ''Inventory'' etype \<or> prefix ''Revenue'' etype)"

text \<open>
  The specification's eligibility predicate of \<open>claimNext\<close>: the status is
  \<open>NEW\<close> or \<open>PENDING\<close>, \<open>available_at \<le> now\<close>, and the lease is absent or
  older than the lease TTL.
\<close>

definition eligible_spec :: "config \<Rightarrow> int \<Rightarrow> event \<Rightarrow> bool" where
  "eligible_spec cfg now e =
     ((status e = NEW \<or> status e = PENDING) \<and> available_at e \<le> now \<and>
      (case locked_at e of None \<Rightarrow> True | Some t \<Rightarrow> now - t > LOCK_TTL_SECONDS cfg))"

text \<open>
  The specification's order of service: the smaller priority first, ties broken by the
  smaller id.
\<close>

definition served_before :: "event \<Rightarrow> event \<Rightarrow> bool" where
  "served_before e x =
     (priority e < priority x \<or> (priority e = priority x \<and> id_col e \<le> id_col x))"

section \<open>Sequences of operations\<close>

text \<open>
  An event that fails on every attempt: a worker claims the next event at \<open>now\<close> and
  its handler raises, so that \<open>mark_failed\<close> finishes the attempt; the next attempt
  follows 600 seconds later, when every backoff has passed. The sequence ends when
  nothing can be claimed.
\<close>

fun failing_attempts :: "config \<Rightarrow> schema \<Rightarrow> nat \<Rightarrow> int \<Rightarrow> db \<Rightarrow> db" where
  "failing_attempts cfg sch 0 now d = d"
| "failing_attempts cfg sch (Suc k) now d =
     (case lock_next_event cfg sch now now d of
        (None, d') \<Rightarrow> d'
      | (Some r, d') \<Rightarrow>
          failing_attempts cfg sch k (now + 600)
            (mark_failed cfg now (id_col r) ''RuntimeError: boom'' d'))"

text \<open>
  The rows around the event under test: rows of other ids that no claim can take,
  because they are being processed or are finished.
\<close>

definition not_claimable :: "event \<Rightarrow> bool" where
  "not_claimable x = (status x = PROCESSING \<or> status x = DONE \<or> status x = FAILED)"

definition others_idle :: "nat \<Rightarrow> event list \<Rightarrow> bool" where
  "others_idle eid rows = list_all (\<lambda>x. not_claimable x \<and> id_col x \<noteq> eid) rows"

text \<open>
  The operations of the event store, as any number of workers may issue them, each with
  the time of its statements; a claim carries the identity of its worker. Running a
  sequence gives, for each operation, the id of the event it claimed, if any.
\<close>

datatype store_op =
    OpEnqueue int string "(string \<times> json) list" status int "int option" "int option"
      "int option" "string option"
  | OpClaim string int int
  | OpDone int nat
  | OpFail int nat string

fun apply_op ::
  "config \<Rightarrow> schema \<Rightarrow> ((string \<times> json) list \<Rightarrow> string) \<Rightarrow> store_op \<Rightarrow> db \<Rightarrow>
   nat option \<times> db" where
  "apply_op cfg sch dumps (OpEnqueue now etype payload st prio run_at max_att created_by corr) d =
     (None, snd (enqueue_event cfg sch dumps now etype payload st prio run_at max_att
                   created_by corr d))"
| "apply_op cfg sch dumps (OpClaim worker now_sel now_upd) d =
     (case lock_next_event (cfg\<lparr>WORKER_ID := worker\<rparr>) sch now_sel now_upd d of
        (r, d') \<Rightarrow> (map_option id_col r, d'))"
| "apply_op cfg sch dumps (OpDone now eid) d = (None, mark_done now eid d)"
| "apply_op cfg sch dumps (OpFail now eid err) d = (None, mark_failed cfg now eid err d)"

fun run_ops ::
  "config \<Rightarrow> schema \<Rightarrow> ((string \<times> json) list \<Rightarrow> string) \<Rightarrow> store_op list \<Rightarrow> db \<Rightarrow>
   nat option list \<times> db" where
  "run_ops cfg sch dumps [] d = ([], d)"
| "run_ops cfg sch dumps (x # xs) d =
     (case apply_op cfg sch dumps x d of
        (r, d') \<Rightarrow> (case run_ops cfg sch dumps xs d' of (rs, d'') \<Rightarrow> (r # rs, d'')))"

text \<open>
  The primary key and its counter: ids are distinct and below \<open>auto_increment\<close>.
\<close>

definition pk_ok :: "db \<Rightarrow> bool" where
  "pk_ok d =
     (distinct (map id_col (agent_events d)) \<and>
      list_all (\<lambda>i. i < auto_increment d) (map id_col (agent_events d)))"

text \<open>
  An event is exhausted when it is finished (\<open>FAILED\<close> or \<open>DONE\<close>) with its attempts
  at or above the limit of \<open>mark_failed\<close>.
\<close>

definition exhausted :: "config \<Rightarrow> nat \<Rightarrow> db \<Rightarrow> bool" where
  "exhausted cfg eid d =
     (case select_by_id eid (agent_events d) of
        None \<Rightarrow> False
      | Some e \<Rightarrow>
          (status e = FAILED \<or> status e = DONE) \<and> effective_max_attempts cfg e \<le> attempts e)"

section \<open>Concrete inputs\<close>

definition cfg8 :: config where
  "cfg8 = \<lparr>WORKER_ID = ''w2'', LOCK_TTL_SECONDS = 300, MAX_EVENT_ATTEMPTS = 8\<rparr>"

definition ev7 :: event where
  "ev7 = \<lparr>id_col = 1, event_type = ''CaseUpdated'', payload_json = Some ''{}'',
     status = PROCESSING, priority = 50, attempts = 1, max_attempts = 8, available_at = 0,
     locked_by = Some ''w1'', locked_at = Some 90, last_error = None, done_at = None,
     correlation_id = None, created_by_user_id = None, created_at = 0, updated_at = 90\<rparr>"

definition db7 :: db where
  "db7 = \<lparr>agent_events = [ev7], auto_increment = 2, agent_runs = [],
     idempotency_locks = Map.empty\<rparr>"


definition ev8 :: event where
  "ev8 = \<lparr>id_col = 4, event_type = ''PatientRegistered'', payload_json = Some ''not json'',
     status = PROCESSING, priority = 50, attempts = 1, max_attempts = 8, available_at = 0,
     locked_by = Some ''w2'', locked_at = Some 90, last_error = None, done_at = None,
     correlation_id = None, created_by_user_id = None, created_at = 0, updated_at = 90\<rparr>"

definition db8 :: db where
  "db8 = \<lparr>agent_events = [ev8], auto_increment = 5, agent_runs = [],
     idempotency_locks = Map.empty\<rparr>"

text \<open>A handler that raises on every call, and a \<open>json.loads\<close> that knows one text.\<close>

definition raising_handler :: handler where
  "raising_handler c d = (d, Some ''RuntimeError: boom'')"

definition loads_braces :: "string \<Rightarrow> exn + json" where
  "loads_braces s = (if s = ''{}'' then Inr (JObject []) else Inl JSONDecodeError)"

definition empty_db :: db where
  "empty_db = \<lparr>agent_events = [], auto_increment = 1, agent_runs = [],
     idempotency_locks = Map.empty\<rparr>"

definition dumps_braces :: "(string \<times> json) list \<Rightarrow> string" where
  "dumps_braces payload = ''{}''"



definition db_new :: db where
  "db_new = snd (enqueue_event cfg8 full_schema dumps_braces 0 ''CaseUpdated'' [] NEW 50
                   None None None None empty_db)"

definition ev3 :: event where
  "ev3 = \<lparr>id_col = 1, event_type = ''CaseUpdated'', payload_json = Some ''{}'',
     status = PROCESSING, priority = 50, attempts = 1, max_attempts = 0, available_at = 0,
     locked_by = Some ''w2'', locked_at = Some 90, last_error = None, done_at = None,
     correlation_id = None, created_by_user_id = None, created_at = 0, updated_at = 90\<rparr>"

definition db3 :: db where
  "db3 = \<lparr>agent_events = [ev3], auto_increment = 2, agent_runs = [],
     idempotency_locks = Map.empty\<rparr>"

definition ev_last :: event where
  "ev_last = ev7\<lparr>attempts := 8\<rparr>"

definition db_last :: db where
  "db_last = db7\<lparr>agent_events := [ev_last]\<rparr>"

definition later_ops :: "store_op list" where
  "later_ops =
     [OpClaim ''w1'' 2000 2000,
      OpEnqueue 2001 ''CaseUpdated'' [] NEW 50 None None None None,
      OpClaim ''w2'' 2002 2002,
      OpFail 2003 1 ''again'',
      OpClaim ''w3'' 9000 9000,
      OpDone 9001 1,
      OpFail 9002 1 ''again'',
      OpClaim ''w1'' 99999 99999]"

definition ev_new :: event where
  "ev_new = enqueue_row cfg8 full_schema dumps_braces 0 1 ''CaseUpdated'' [] NEW 50
              None None None None"

section \<open>Rows and their identifiers\<close>

lemma select_by_id_SomeD:
  "select_by_id eid rows = Some e \<Longrightarrow> e \<in> set rows \<and> id_col e = eid"
  unfolding select_by_id_def
  by (induction rows) (auto split: if_splits)

lemma select_by_id_None_iff:
  "select_by_id eid rows = None \<longleftrightarrow> eid \<notin> set (map id_col rows)"
  unfolding select_by_id_def
  by (induction rows) auto

lemma select_by_id_distinct:
  "distinct (map id_col rows) \<Longrightarrow> e \<in> set rows \<Longrightarrow> select_by_id (id_col e) rows = Some e"
  unfolding select_by_id_def
  by (induction rows) (auto simp: image_iff)

lemma update_where_id_absent:
  "eid \<notin> set (map id_col rows) \<Longrightarrow> update_where_id eid f rows = rows"
  unfolding update_where_id_def
  by (induction rows) auto

lemma select_by_id_update_same:
  "select_by_id eid rows = Some e \<Longrightarrow> id_col (f e) = eid \<Longrightarrow>
   select_by_id eid (update_where_id eid f rows) = Some (f e)"
  unfolding select_by_id_def update_where_id_def
  by (induction rows) (auto split: if_splits)

lemma select_by_id_update_other:
  "eid' \<noteq> eid \<Longrightarrow> (\<And>x. id_col (f x) = id_col x) \<Longrightarrow>
   select_by_id eid' (update_where_id eid f rows) = select_by_id eid' rows"
  unfolding select_by_id_def update_where_id_def
  by (induction rows) auto

lemma map_id_col_update:
  "(\<And>x. id_col (f x) = id_col x) \<Longrightarrow> map id_col (update_where_id eid f rows) = map id_col rows"
  unfolding update_where_id_def
  by (induction rows) auto

lemma update_where_id_twice:
  "(\<And>x. id_col (f x) = id_col x) \<Longrightarrow>
   update_where_id eid g (update_where_id eid f rows) = update_where_id eid (g \<circ> f) rows"
  unfolding update_where_id_def
  by (induction rows) auto

lemma id_col_done_row: "id_col (done_row now e) = id_col e"
  by (simp add: done_row_def)

lemma id_col_failed_row: "id_col (failed_row now err e) = id_col e"
  by (simp add: failed_row_def)

lemma id_col_retry_row: "id_col (retry_row now err k e) = id_col e"
  by (simp add: retry_row_def)

lemma id_col_claim_row: "id_col (claim_row cfg sch now e) = id_col e"
  by (simp add: claim_row_def)

lemma done_row_twice: "done_row t2 (done_row t1 e) = done_row t2 e"
  by (simp add: done_row_def)

section \<open>Backoff\<close>

lemma backoff_nonneg: "0 \<le> n \<Longrightarrow> backoff n = min 600 (max 10 (2 ^ nat (min n 8) * 5))"
  by (simp add: backoff_def)

lemma backoff_bounds: "10 \<le> backoff n \<and> backoff n \<le> 600"
  by (simp add: backoff_def)

lemma backoff_eq_spec: "backoff (int n) = backoff_spec n"
proof -
  have "nat (min (int n) 8) = min n 8" by (simp add: min_def)
  then show ?thesis
    by (simp add: backoff_def backoff_spec_def clamp_def)
qed

lemma clamp_mono_aux: "(x::int) \<le> y \<Longrightarrow> min 600 (max 10 x) \<le> min 600 (max 10 y)"
  by simp

lemma backoff_mono: "a \<le> b \<Longrightarrow> backoff a \<le> backoff b"
proof (cases "a < 0")
  case True
  then show ?thesis using backoff_bounds [of b] by (simp add: backoff_def)
next
  case False
  assume ab: "a \<le> b"
  from False ab have nn: "0 \<le> a" "0 \<le> b" by simp_all
  have "nat (min a 8) \<le> nat (min b 8)" using ab by (intro nat_mono) simp
  then have "(2::int) ^ nat (min a 8) * 5 \<le> 2 ^ nat (min b 8) * 5"
    by (simp add: power_increasing)
  then have "min 600 (max 10 ((2::int) ^ nat (min a 8) * 5))
      \<le> min 600 (max 10 (2 ^ nat (min b 8) * 5))"
    by (rule clamp_mono_aux)
  then show ?thesis using nn
    by (simp only: backoff_nonneg)
qed

section \<open>Effect of mark_failed on the stored row\<close>

lemma mark_failed_branch_Some:
  "select_by_id eid (agent_events d) = Some e \<Longrightarrow>
   mark_failed_branch cfg eid d =
     (if attempts e \<ge> effective_max_attempts cfg e then TerminalUpdate else RetryUpdate)"
  by (simp add: mark_failed_branch_def read_attempts_def read_max_attempts_def
      effective_max_attempts_def)

lemma mark_failed_terminal:
  assumes "select_by_id eid (agent_events d) = Some e"
    and "mark_failed_branch cfg eid d = TerminalUpdate"
  shows "mark_failed cfg now eid err d =
           d\<lparr>agent_events := update_where_id eid (failed_row now err) (agent_events d)\<rparr>"
    and "select_by_id eid (agent_events (mark_failed cfg now eid err d)) =
           Some (failed_row now err e)"
proof -
  show a: "mark_failed cfg now eid err d =
           d\<lparr>agent_events := update_where_id eid (failed_row now err) (agent_events d)\<rparr>"
    using assms(2) by (simp add: mark_failed_def)
  have "id_col e = eid" using assms(1) select_by_id_SomeD by blast
  then show "select_by_id eid (agent_events (mark_failed cfg now eid err d)) =
           Some (failed_row now err e)"
    using assms(1) by (simp add: a select_by_id_update_same id_col_failed_row)
qed

lemma mark_failed_retry:
  assumes "select_by_id eid (agent_events d) = Some e"
    and "mark_failed_branch cfg eid d = RetryUpdate"
  shows "mark_failed cfg now eid err d =
           d\<lparr>agent_events :=
               update_where_id eid (retry_row now err (backoff (attempts e))) (agent_events d)\<rparr>"
    and "select_by_id eid (agent_events (mark_failed cfg now eid err d)) =
           Some (retry_row now err (backoff (attempts e)) e)"
proof -
  show a: "mark_failed cfg now eid err d =
           d\<lparr>agent_events :=
               update_where_id eid (retry_row now err (backoff (attempts e))) (agent_events d)\<rparr>"
    using assms by (simp add: mark_failed_def read_attempts_def)
  have "id_col e = eid" using assms(1) select_by_id_SomeD by blast
  then show "select_by_id eid (agent_events (mark_failed cfg now eid err d)) =
           Some (retry_row now err (backoff (attempts e)) e)"
    using assms(1) by (simp add: a select_by_id_update_same id_col_retry_row)
qed

lemma mark_failed_other:
  "eid' \<noteq> eid \<Longrightarrow>
   select_by_id eid' (agent_events (mark_failed cfg now eid err d)) =
   select_by_id eid' (agent_events d)"
  by (cases "mark_failed_branch cfg eid d")
     (simp_all add: mark_failed_def select_by_id_update_other id_col_failed_row id_col_retry_row)

text \<open>
  C4. For every attempt count \<open>n \<ge> 0\<close> the delay that \<open>mark_failed\<close> computes is
  \<open>clamp(2^min(n,8) * 5, lower=10, upper=600)\<close> seconds. The delay is never below 10
  and never above 600 seconds, and it does not decrease when the attempt count grows, as
  it does from one failure of an event to the next. In the retry branch the row becomes
  available at \<open>now\<close> plus that delay.
\<close>

theorem backoff_clamped_monotone:
  "backoff (int n) = backoff_spec n
   \<and> 10 \<le> backoff a \<and> backoff a \<le> 600
   \<and> (a \<le> b \<longrightarrow> backoff a \<le> backoff b)
   \<and> (select_by_id eid (agent_events d) = Some e \<and> 0 \<le> attempts e
        \<and> mark_failed_branch cfg eid d = RetryUpdate \<longrightarrow>
      (\<exists>e'. select_by_id eid (agent_events (mark_failed cfg now eid err d)) = Some e'
            \<and> available_at e' = now + backoff_spec (nat (attempts e))))"
proof -
  have last: "\<exists>e'. select_by_id eid (agent_events (mark_failed cfg now eid err d)) = Some e'
            \<and> available_at e' = now + backoff_spec (nat (attempts e))"
    if h: "select_by_id eid (agent_events d) = Some e" "0 \<le> attempts e"
       "mark_failed_branch cfg eid d = RetryUpdate"
  proof -
    have "backoff (attempts e) = backoff_spec (nat (attempts e))"
      using backoff_eq_spec [of "nat (attempts e)"] h(2) by simp
    then show ?thesis
      using mark_failed_retry(2) [OF h(1) h(3), of now err] by (simp add: retry_row_def)
  qed
  show ?thesis
    using backoff_eq_spec backoff_bounds backoff_mono last by blast
qed

text \<open>The same at 3 attempts, at 2 and 9 attempts, and on a stored row with 1 attempt.\<close>

theorem backoff_clamped_monotone_witness:
  "backoff (int 3) = backoff_spec 3
   \<and> (2::int) \<le> 9 \<and> backoff 2 \<le> backoff 9
   \<and> select_by_id 1 (agent_events db7) = Some ev7 \<and> 0 \<le> attempts ev7
   \<and> mark_failed_branch cfg8 1 db7 = RetryUpdate
   \<and> (\<exists>e'. select_by_id 1 (agent_events (mark_failed cfg8 100 1 ''boom'' db7)) = Some e'
            \<and> available_at e' = 100 + backoff_spec (nat (attempts ev7)))"
proof -
  have h1: "select_by_id 1 (agent_events db7) = Some ev7"
    by (simp add: db7_def select_by_id_def ev7_def)
  have h2: "0 \<le> attempts ev7" by (simp add: ev7_def)
  have h3: "mark_failed_branch cfg8 1 db7 = RetryUpdate"
    using mark_failed_branch_Some [OF h1, of cfg8]
    by (simp add: effective_max_attempts_def ev7_def cfg8_def)
  have h4: "(2::int) \<le> 9" by simp
  show ?thesis
    using h1 h2 h3 h4
      backoff_clamped_monotone [where n = 3 and a = 2 and b = 9 and eid = 1 and d = db7
        and e = ev7 and cfg = cfg8 and now = 100 and err = "''boom''"]
    by blast
qed

section \<open>mark_done called twice\<close>

text \<open>
  C7, as stated, fails: the claim says that a second \<open>mark_done\<close> on the same event
  changes no field of the row. The \<open>UPDATE\<close> has no guard on the status and sets
  \<open>done_at = NOW()\<close> again: a second call at second 200 after a first at second 100
  leaves a row that differs from the row after the first call.
\<close>

theorem mark_done_twice_counterexample:
  "select_by_id 1 (agent_events (mark_done 200 1 (mark_done 100 1 db7)))
     \<noteq> select_by_id 1 (agent_events (mark_done 100 1 db7))"
  by (simp add: mark_done_def db7_def ev7_def update_where_id_def select_by_id_def done_row_def)

text \<open>
  C7, amended. \<open>mark_done\<close> sets the status to \<open>DONE\<close>, \<open>done_at\<close> and
  \<open>updated_at\<close> to the time of the call, and clears \<open>locked_by\<close> and
  \<open>locked_at\<close>. A second call keeps the status and the cleared lease and sets
  \<open>done_at\<close> and \<open>updated_at\<close> to the time of the second call: two calls leave
  the tables as the second call alone would, and a second call at the same time changes
  nothing.
\<close>

theorem mark_done_rearms_timestamps:
  assumes "select_by_id eid (agent_events d) = Some e"
  shows "select_by_id eid (agent_events (mark_done t1 eid d)) =
           Some (e\<lparr>status := DONE, done_at := Some t1, locked_by := None, locked_at := None,
                   updated_at := t1\<rparr>)
       \<and> select_by_id eid (agent_events (mark_done t2 eid (mark_done t1 eid d))) =
           Some (e\<lparr>status := DONE, done_at := Some t2, locked_by := None, locked_at := None,
                   updated_at := t2\<rparr>)
       \<and> mark_done t2 eid (mark_done t1 eid d) = mark_done t2 eid d
       \<and> mark_done t1 eid (mark_done t1 eid d) = mark_done t1 eid d"
proof -
  have idd: "id_col e = eid" using assms select_by_id_SomeD by blast
  have one: "select_by_id eid (agent_events (mark_done t eid d)) = Some (done_row t e)" for t
    using assms idd by (simp add: mark_done_def select_by_id_update_same id_col_done_row)
  have absorb: "mark_done b eid (mark_done a eid d) = mark_done b eid d" for a b
    by (simp add: mark_done_def update_where_id_twice id_col_done_row comp_def done_row_twice)
  show ?thesis using one absorb by (simp add: done_row_def)
qed

text \<open>The amended statement on the row of the counterexample.\<close>

theorem mark_done_rearms_timestamps_witness:
  "select_by_id 1 (agent_events db7) = Some ev7
   \<and> select_by_id 1 (agent_events (mark_done 200 1 (mark_done 100 1 db7))) =
         Some (ev7\<lparr>status := DONE, done_at := Some 200, locked_by := None, locked_at := None,
                 updated_at := 200\<rparr>)"
proof -
  have h: "select_by_id 1 (agent_events db7) = Some ev7"
    by (simp add: db7_def select_by_id_def ev7_def)
  show ?thesis using h mark_done_rearms_timestamps [OF h, of 100 200] by blast
qed

section \<open>mark_failed on a missing row\<close>

text \<open>
  C10. \<open>mark_failed\<close> with an id that no row has: the read gives no row, which is
  taken as 0 attempts and the default limit; with a positive default the retry branch
  runs; its \<open>UPDATE\<close> matches no row, and the tables are left as they were. The
  model of \<open>mark_failed\<close> has no raising branch.
\<close>

theorem mark_failed_missing_row:
  assumes "eid \<notin> set (map id_col (agent_events d))"
  shows "select_by_id eid (agent_events d) = None
       \<and> read_attempts (select_by_id eid (agent_events d)) = 0
       \<and> read_max_attempts cfg (select_by_id eid (agent_events d)) = MAX_EVENT_ATTEMPTS cfg
       \<and> (0 < MAX_EVENT_ATTEMPTS cfg \<longrightarrow> mark_failed_branch cfg eid d = RetryUpdate)
       \<and> update_where_id eid (retry_row now err (backoff 0)) (agent_events d) = agent_events d
       \<and> mark_failed cfg now eid err d = d"
proof -
  have none: "select_by_id eid (agent_events d) = None"
    using assms by (simp add: select_by_id_None_iff)
  have same: "update_where_id eid f (agent_events d) = agent_events d" for f
    using assms by (rule update_where_id_absent)
  have "mark_failed cfg now eid err d = d"
    by (cases "mark_failed_branch cfg eid d") (simp_all add: mark_failed_def same)
  then show ?thesis
    using none same
    by (simp add: read_attempts_def read_max_attempts_def mark_failed_branch_def)
qed

text \<open>The same for id 5 in a table whose only row has id 1.\<close>

theorem mark_failed_missing_row_witness:
  "(5::nat) \<notin> set (map id_col (agent_events db7))
   \<and> 0 < MAX_EVENT_ATTEMPTS cfg8
   \<and> mark_failed_branch cfg8 5 db7 = RetryUpdate
   \<and> mark_failed cfg8 100 5 ''boom'' db7 = db7"
proof -
  have h: "(5::nat) \<notin> set (map id_col (agent_events db7))"
    by (simp add: db7_def ev7_def)
  have m: "0 < MAX_EVENT_ATTEMPTS cfg8" by (simp add: cfg8_def)
  show ?thesis
    using h m mark_failed_missing_row [OF h, of cfg8 100 "''boom''"] by blast
qed

section \<open>Idempotency lock\<close>

lemma claim_active: "lock_active now key d \<Longrightarrow> claim cfg now key ttl d = (False, d)"
  by (auto simp: lock_active_def claim_def split: option.splits)

lemma claim_inactive:
  "\<not> lock_active now key d \<Longrightarrow> claim cfg now key ttl d = (True, arm cfg now key ttl d)"
  by (auto simp: lock_active_def claim_def arm_def Let_def split: option.splits)

lemma lock_active_arm:
  "lock_active t key (arm cfg now key ttl d) \<longleftrightarrow> t < now + ttl"
  by (simp add: lock_active_def arm_def)

text \<open>
  C6. \<open>claim\<close> returns false and changes nothing when the key is held at \<open>now\<close>;
  otherwise it returns true and the row of the key is that of the claiming worker with
  \<open>expires_at = now + ttl\<close>. Hence, from a state where the key is not held at
  \<open>ta\<close>, a claim at \<open>ta\<close> succeeds, a claim by any worker at \<open>tb\<close> inside the
  window \<open>ta \<le> tb < ta + ttl\<close> fails and changes nothing, and a claim at
  \<open>tc \<ge> ta + ttl\<close> succeeds again.
\<close>

theorem claim_dedup:
  "(lock_active now key d \<longrightarrow> claim cfg now key ttl d = (False, d))
   \<and> (\<not> lock_active now key d \<longrightarrow> claim cfg now key ttl d = (True, arm cfg now key ttl d))
   \<and> (\<not> lock_active ta key d \<and> ta \<le> tb \<and> tb < ta + ttl \<and> ta + ttl \<le> tc \<longrightarrow>
        (let (r1, d1) = claim cfg ta key ttl d;
             (r2, d2) = claim cfg' tb key ttl d1;
             (r3, d3) = claim cfg'' tc key ttl d2
         in r1 \<and> \<not> r2 \<and> r3))
   \<and> (\<not> lock_active ta key d \<and> ta \<le> tb \<and> tb < ta + ttl \<longrightarrow>
        (let (r1, d1) = claim cfg ta key ttl d;
             (r2, d2) = claim cfg' tb key ttl d1
         in (r1 \<and> \<not> r2) \<and> d2 = d1))"
proof -
  have seq: "(let (r1, d1) = claim cfg ta key ttl d;
             (r2, d2) = claim cfg' tb key ttl d1;
             (r3, d3) = claim cfg'' tc key ttl d2
         in r1 \<and> \<not> r2 \<and> r3)"
    if h: "\<not> lock_active ta key d" "ta \<le> tb" "tb < ta + ttl" "ta + ttl \<le> tc"
  proof -
    have a2: "lock_active tb key (arm cfg ta key ttl d)"
      using h(3) by (simp add: lock_active_arm)
    have a3: "\<not> lock_active tc key (arm cfg ta key ttl d)"
      using h(4) by (simp add: lock_active_arm)
    show ?thesis
      by (simp add: claim_inactive [OF h(1)] claim_active [OF a2] claim_inactive [OF a3])
  qed
  have two: "(let (r1, d1) = claim cfg ta key ttl d;
             (r2, d2) = claim cfg' tb key ttl d1
         in (r1 \<and> \<not> r2) \<and> d2 = d1)"
    if h: "\<not> lock_active ta key d" "ta \<le> tb" "tb < ta + ttl"
  proof -
    have a2: "lock_active tb key (arm cfg ta key ttl d)"
      using h(3) by (simp add: lock_active_arm)
    show ?thesis
      by (simp add: claim_inactive [OF h(1)] claim_active [OF a2])
  qed
  show ?thesis using claim_active claim_inactive seq two by blast
qed

text \<open>The window of 60 seconds of the specification: claims at seconds 0, 30 and 60.\<close>

theorem claim_dedup_witness:
  "lock_active 30 ''cron:x'' (arm cfg8 0 ''cron:x'' 60 db7)
   \<and> claim cfg8 30 ''cron:x'' 60 (arm cfg8 0 ''cron:x'' 60 db7)
        = (False, arm cfg8 0 ''cron:x'' 60 db7)
   \<and> \<not> lock_active 0 ''cron:x'' db7 \<and> (0::int) \<le> 30 \<and> (30::int) < 0 + 60
   \<and> (0::int) + 60 \<le> 60
   \<and> claim cfg8 0 ''cron:x'' 60 db7 = (True, arm cfg8 0 ''cron:x'' 60 db7)
   \<and> (let (r1, d1) = claim cfg8 0 ''cron:x'' 60 db7;
           (r2, d2) = claim cfg8 30 ''cron:x'' 60 d1;
           (r3, d3) = claim cfg8 60 ''cron:x'' 60 d2
       in r1 \<and> \<not> r2 \<and> r3)"
proof -
  have h1: "lock_active 30 ''cron:x'' (arm cfg8 0 ''cron:x'' 60 db7)"
    by (simp add: lock_active_arm)
  have h2: "\<not> lock_active 0 ''cron:x'' db7"
    by (simp add: lock_active_def db7_def)
  have h3: "(0::int) \<le> 30 \<and> (30::int) < 0 + 60 \<and> (0::int) + 60 \<le> 60" by simp
  show ?thesis
    using h1 h2 h3
      claim_dedup [where now = 30 and key = "''cron:x''" and cfg = cfg8 and ttl = 60
        and d = "arm cfg8 0 ''cron:x'' 60 db7"]
      claim_dedup [where now = 0 and ta = 0 and tb = 30 and tc = 60 and key = "''cron:x''"
        and cfg = cfg8 and cfg' = cfg8 and cfg'' = cfg8 and ttl = 60 and d = db7]
    by blast
qed

text \<open>
  The worker's periodic triggers on this lock: when none of the three keys is held, one
  pass of \<open>_enqueue_periodics\<close> enqueues the three tick events and holds the keys for
  55 and 3600 seconds; a pass of any worker within the next 55 seconds enqueues nothing.
\<close>

lemma lock_active_enqueue:
  "lock_active t key (snd (enqueue_event cfg sch dumps now etype payload st prio run_at max_att
      created_by corr d)) = lock_active t key d"
  by (simp add: lock_active_def enqueue_event_def Let_def)

lemma lock_active_arm_any:
  "lock_active t key (arm cfg now key' ttl d) =
     (if key = key' then t < now + ttl else lock_active t key d)"
  by (simp add: lock_active_def arm_def)

lemma agent_events_arm: "agent_events (arm cfg now key ttl d) = agent_events d"
  by (simp add: arm_def)

lemma enqueue_periodics_first:
  assumes "\<not> lock_active t ''cron:minute:appt_monitor'' d"
    and "\<not> lock_active t ''cron:hour:inventory'' d"
    and "\<not> lock_active t ''cron:hour:revenue'' d"
  shows "map event_type (agent_events (enqueue_periodics cfg sch dumps t d)) =
           map event_type (agent_events d) @
             [''AppointmentMonitorTick'', ''InventoryDailyTick'', ''RevenueDailyTick'']"
    and "lock_active t' ''cron:minute:appt_monitor'' (enqueue_periodics cfg sch dumps t d)
           = (t' < t + 55)"
    and "lock_active t' ''cron:hour:inventory'' (enqueue_periodics cfg sch dumps t d)
           = (t' < t + 3600)"
    and "lock_active t' ''cron:hour:revenue'' (enqueue_periodics cfg sch dumps t d)
           = (t' < t + 3600)"
  using assms
  by (simp_all add: enqueue_periodics_def claim_inactive lock_active_enqueue
      lock_active_arm_any agent_events_arm enqueue_event_def enqueue_row_def Let_def
      lock_active_def arm_def)

lemma enqueue_periodics_held:
  assumes "lock_active t ''cron:minute:appt_monitor'' d"
    and "lock_active t ''cron:hour:inventory'' d"
    and "lock_active t ''cron:hour:revenue'' d"
  shows "enqueue_periodics cfg sch dumps t d = d"
  using assms by (simp add: enqueue_periodics_def claim_active)

lemma enqueue_periodics_dedup:
  assumes "\<not> lock_active t ''cron:minute:appt_monitor'' d"
    and "\<not> lock_active t ''cron:hour:inventory'' d"
    and "\<not> lock_active t ''cron:hour:revenue'' d"
    and "t \<le> t'" and "t' < t + 55"
  shows "enqueue_periodics cfg' sch dumps t' (enqueue_periodics cfg sch dumps t d) =
           enqueue_periodics cfg sch dumps t d"
  using assms(4,5)
  by (intro enqueue_periodics_held) (simp_all add: enqueue_periodics_first(2-4) [OF assms(1-3)])

section \<open>The worker on a claimed event\<close>

lemma agent_events_log_run: "agent_events (log_run a eid st err d) = agent_events d"
  by (simp add: log_run_def)

lemma agent_runs_log_run:
  "agent_runs (log_run a eid st err d) =
     agent_runs d @ [\<lparr>actor = a, event_id = eid, run_status = st, error_text = err\<rparr>]"
  by (simp add: log_run_def)

lemma agent_runs_mark_done: "agent_runs (mark_done now eid d) = agent_runs d"
  by (simp add: mark_done_def)

lemma select_by_id_mark_done:
  "select_by_id eid (agent_events d) = Some e \<Longrightarrow>
   select_by_id eid (agent_events (mark_done now eid d)) = Some (done_row now e)"
  using select_by_id_SomeD [of eid "agent_events d" e]
  by (simp add: mark_done_def select_by_id_update_same id_col_done_row)

lemma parse_payload_total: "\<exists>v. parse_payload loads row = Inr v"
  by (simp add: parse_payload_def split: sum.splits)

lemma dispatch_calls_unknown:
  "\<not> known_event_type etype \<Longrightarrow> dispatch_calls eid etype payload = []"
  by (simp add: known_event_type_def dispatch_calls_def)

lemma dispatch_calls_payload:
  "c \<in> set (dispatch_calls eid etype payload) \<Longrightarrow> snd (snd (snd c)) = payload"
  by (auto simp: dispatch_calls_def split: if_splits)

text \<open>
  C8. For a claimed event whose type is none of the known types and has none of the known
  prefixes, \<open>_dispatch\<close> calls no handler and returns without an exception, with the
  tables as they were; the worker then logs \<open>STARTED\<close> and \<open>DONE\<close> and
  \<open>mark_done\<close> finishes the event: status \<open>DONE\<close>, and \<open>last_error\<close>,
  \<open>attempts\<close> and \<open>available_at\<close> as before.
\<close>

theorem unknown_event_type_done:
  assumes "\<not> known_event_type (event_type row)"
  shows "dispatch_calls (id_col row) (event_type row) payload = []
       \<and> dispatch h (id_col row) (event_type row) payload d = (d, None)
       \<and> process_event cfg loads h now row d =
           log_run ''worker'' (Some (id_col row)) ''DONE'' None
             (mark_done now (id_col row)
                (log_run ''worker'' (Some (id_col row)) ''STARTED'' None d))
       \<and> agent_runs (process_event cfg loads h now row d) =
           agent_runs d @
             [\<lparr>actor = ''worker'', event_id = Some (id_col row), run_status = ''STARTED'',
                error_text = None\<rparr>,
              \<lparr>actor = ''worker'', event_id = Some (id_col row), run_status = ''DONE'',
                error_text = None\<rparr>]
       \<and> (select_by_id (id_col row) (agent_events d) = Some e \<longrightarrow>
            select_by_id (id_col row) (agent_events (process_event cfg loads h now row d)) =
              Some (e\<lparr>status := DONE, done_at := Some now, locked_by := None,
                      locked_at := None, updated_at := now\<rparr>))"
proof -
  have calls: "dispatch_calls (id_col row) (event_type row) p = []" for p
    using assms by (rule dispatch_calls_unknown)
  have disp: "dispatch h (id_col row) (event_type row) p d' = (d', None)" for p d'
    by (simp add: dispatch_def calls)
  obtain v where v: "parse_payload loads row = Inr v"
    using parse_payload_total by blast
  have pe: "process_event cfg loads h now row d =
           log_run ''worker'' (Some (id_col row)) ''DONE'' None
             (mark_done now (id_col row)
                (log_run ''worker'' (Some (id_col row)) ''STARTED'' None d))"
    by (simp add: process_event_def v disp Let_def)
  have runs: "agent_runs (process_event cfg loads h now row d) =
           agent_runs d @
             [\<lparr>actor = ''worker'', event_id = Some (id_col row), run_status = ''STARTED'',
                error_text = None\<rparr>,
              \<lparr>actor = ''worker'', event_id = Some (id_col row), run_status = ''DONE'',
                error_text = None\<rparr>]"
    by (simp add: pe agent_runs_log_run agent_runs_mark_done)
  have row: "select_by_id (id_col row) (agent_events (process_event cfg loads h now row d)) =
              Some (e\<lparr>status := DONE, done_at := Some now, locked_by := None,
                      locked_at := None, updated_at := now\<rparr>)"
    if h: "select_by_id (id_col row) (agent_events d) = Some e"
  proof -
    have "select_by_id (id_col row)
            (agent_events (log_run ''worker'' (Some (id_col row)) ''STARTED'' None d)) = Some e"
      using h by (simp add: agent_events_log_run)
    then show ?thesis
      by (simp add: pe agent_events_log_run select_by_id_mark_done done_row_def)
  qed
  show ?thesis using calls disp pe runs row by blast
qed

text \<open>The same for an event of type \<open>PatientRegistered\<close>, with a handler that would raise.\<close>

theorem unknown_event_type_done_witness:
  "\<not> known_event_type (event_type ev8)
   \<and> dispatch_calls (id_col ev8) (event_type ev8) JNull = []
   \<and> select_by_id (id_col ev8) (agent_events db8) = Some ev8
   \<and> select_by_id (id_col ev8)
        (agent_events (process_event cfg8 loads_braces raising_handler 100 ev8 db8)) =
       Some (ev8\<lparr>status := DONE, done_at := Some 100, locked_by := None,
               locked_at := None, updated_at := 100\<rparr>)"
proof -
  have h: "\<not> known_event_type (event_type ev8)"
    by (simp add: known_event_type_def ev8_def)
  have s: "select_by_id (id_col ev8) (agent_events db8) = Some ev8"
    by (simp add: select_by_id_def db8_def)
  show ?thesis
    using h s
      unknown_event_type_done [OF h, where payload = JNull and d = db8 and e = ev8
        and cfg = cfg8 and loads = loads_braces and h = raising_handler and now = 100]
    by blast
qed



section \<open>lock_next_event\<close>

lemma eligible_full_schema: "eligible cfg full_schema now e = eligible_spec cfg now e"
  by (auto simp: eligible_def eligible_spec_def full_schema_def split: option.splits)

lemma order_key_le: "order_key e \<le> order_key x \<longleftrightarrow> served_before e x"
  by (auto simp: order_key_def served_before_def)

lemma select_candidate_None_iff:
  "select_candidate cfg sch now rows = None \<longleftrightarrow> (\<forall>e\<in>set rows. \<not> eligible cfg sch now e)"
proof -
  have "sort_key order_key (filter (eligible cfg sch now) rows) = [] \<longleftrightarrow>
        filter (eligible cfg sch now) rows = []"
    by (metis length_sort list.size(3) length_0_conv)
  then show ?thesis
    by (auto simp: select_candidate_def filter_empty_conv split: list.splits)
qed

lemma select_candidate_SomeD:
  assumes "select_candidate cfg sch now rows = Some r"
  shows "r \<in> set rows" and "eligible cfg sch now r"
    and "\<forall>x\<in>set rows. eligible cfg sch now x \<longrightarrow> served_before r x"
proof -
  obtain rest where s: "sort_key order_key (filter (eligible cfg sch now) rows) = r # rest"
    using assms by (auto simp: select_candidate_def split: list.splits)
  have "r \<in> set (sort_key order_key (filter (eligible cfg sch now) rows))"
    by (simp add: s)
  then have mem: "r \<in> set (filter (eligible cfg sch now) rows)" by simp
  show "r \<in> set rows" using mem by simp
  show "eligible cfg sch now r" using mem by simp
  have "sorted (map order_key (sort_key order_key (filter (eligible cfg sch now) rows)))"
    by (rule sorted_sort_key)
  then have le: "\<forall>y\<in>set rest. order_key r \<le> order_key y"
    by (simp add: s)
  show "\<forall>x\<in>set rows. eligible cfg sch now x \<longrightarrow> served_before r x"
  proof (intro ballI impI)
    fix x assume "x \<in> set rows" "eligible cfg sch now x"
    then have "x \<in> set (sort_key order_key (filter (eligible cfg sch now) rows))" by simp
    then have "x = r \<or> x \<in> set rest" by (simp add: s)
    then show "served_before r x"
      using le by (auto simp: order_key_le [symmetric])
  qed
qed

lemma lock_next_event_None:
  "select_candidate cfg sch now_sel (agent_events d) = None \<Longrightarrow>
   lock_next_event cfg sch now_sel now_upd d = (None, d)"
  by (simp add: lock_next_event_def)

lemma lock_next_event_Some:
  assumes "distinct (map id_col (agent_events d))"
    and "select_candidate cfg sch now_sel (agent_events d) = Some r"
  shows "lock_next_event cfg sch now_sel now_upd d =
           (Some (claim_row cfg sch now_upd r),
            d\<lparr>agent_events :=
                update_where_id (id_col r) (claim_row cfg sch now_upd) (agent_events d)\<rparr>)"
proof -
  have "r \<in> set (agent_events d)" using assms(2) by (rule select_candidate_SomeD(1))
  then have "select_by_id (id_col r) (agent_events d) = Some r"
    using assms(1) by (simp add: select_by_id_distinct)
  then have "select_by_id (id_col r)
               (update_where_id (id_col r) (claim_row cfg sch now_upd) (agent_events d)) =
             Some (claim_row cfg sch now_upd r)"
    by (simp add: select_by_id_update_same id_col_claim_row)
  then show ?thesis
    using assms(2) by (simp add: lock_next_event_def Let_def)
qed

lemma claim_row_full:
  "claim_row cfg full_schema now e =
     e\<lparr>status := PROCESSING, attempts := attempts e + 1,
       locked_by := Some (WORKER_ID cfg), locked_at := Some now, updated_at := now\<rparr>"
  by (simp add: claim_row_def full_schema_def)


text \<open>
  C2. On the table of \<open>ensure_schema\<close>, with distinct ids (the primary key):
  \<open>lock_next_event\<close> returns none, and changes nothing, when no row satisfies the
  eligibility predicate (status \<open>NEW\<close> or \<open>PENDING\<close>, \<open>available_at \<le> now\<close>,
  lease absent or older than the TTL). Otherwise it picks an eligible row, sets its status
  to \<open>PROCESSING\<close>, adds exactly 1 to \<open>attempts\<close>, sets \<open>locked_by\<close> to this
  worker and \<open>locked_at\<close> to the time of the update, leaves every other row as it was,
  and returns the row as updated. Selection and update are one step of the model.
\<close>

theorem lock_next_event_claims_eligible_row:
  assumes "distinct (map id_col (agent_events d))"
  shows "((\<forall>e\<in>set (agent_events d). \<not> eligible_spec cfg now_sel e) \<longrightarrow>
            lock_next_event cfg full_schema now_sel now_upd d = (None, d))
       \<and> ((\<exists>e\<in>set (agent_events d). eligible_spec cfg now_sel e) \<longrightarrow>
            (\<exists>e\<in>set (agent_events d). eligible_spec cfg now_sel e \<and>
               lock_next_event cfg full_schema now_sel now_upd d =
                 (Some (e\<lparr>status := PROCESSING, attempts := attempts e + 1,
                          locked_by := Some (WORKER_ID cfg), locked_at := Some now_upd,
                          updated_at := now_upd\<rparr>),
                  d\<lparr>agent_events :=
                      map (\<lambda>x. if id_col x = id_col e
                                then x\<lparr>status := PROCESSING, attempts := attempts x + 1,
                                       locked_by := Some (WORKER_ID cfg),
                                       locked_at := Some now_upd, updated_at := now_upd\<rparr>
                                else x)
                        (agent_events d)\<rparr>)))"
proof (intro conjI impI)
  assume "\<forall>e\<in>set (agent_events d). \<not> eligible_spec cfg now_sel e"
  then have "select_candidate cfg full_schema now_sel (agent_events d) = None"
    by (simp add: select_candidate_None_iff eligible_full_schema)
  then show "lock_next_event cfg full_schema now_sel now_upd d = (None, d)"
    by (rule lock_next_event_None)
next
  assume "\<exists>e\<in>set (agent_events d). eligible_spec cfg now_sel e"
  then have "select_candidate cfg full_schema now_sel (agent_events d) \<noteq> None"
    by (simp add: select_candidate_None_iff eligible_full_schema)
  then obtain r where r: "select_candidate cfg full_schema now_sel (agent_events d) = Some r"
    by blast
  have mem: "r \<in> set (agent_events d)" using r by (rule select_candidate_SomeD(1))
  have el: "eligible_spec cfg now_sel r"
    using select_candidate_SomeD(2) [OF r] by (simp add: eligible_full_schema)
  have "lock_next_event cfg full_schema now_sel now_upd d =
          (Some (claim_row cfg full_schema now_upd r),
           d\<lparr>agent_events :=
               update_where_id (id_col r) (claim_row cfg full_schema now_upd) (agent_events d)\<rparr>)"
    using assms r by (rule lock_next_event_Some)
  then have "lock_next_event cfg full_schema now_sel now_upd d =
                 (Some (r\<lparr>status := PROCESSING, attempts := attempts r + 1,
                          locked_by := Some (WORKER_ID cfg), locked_at := Some now_upd,
                          updated_at := now_upd\<rparr>),
                  d\<lparr>agent_events :=
                      map (\<lambda>x. if id_col x = id_col r
                                then x\<lparr>status := PROCESSING, attempts := attempts x + 1,
                                       locked_by := Some (WORKER_ID cfg),
                                       locked_at := Some now_upd, updated_at := now_upd\<rparr>
                                else x)
                        (agent_events d)\<rparr>)"
    by (simp add: claim_row_full update_where_id_def)
  then show "\<exists>e\<in>set (agent_events d). eligible_spec cfg now_sel e \<and>
               lock_next_event cfg full_schema now_sel now_upd d =
                 (Some (e\<lparr>status := PROCESSING, attempts := attempts e + 1,
                          locked_by := Some (WORKER_ID cfg), locked_at := Some now_upd,
                          updated_at := now_upd\<rparr>),
                  d\<lparr>agent_events :=
                      map (\<lambda>x. if id_col x = id_col e
                                then x\<lparr>status := PROCESSING, attempts := attempts x + 1,
                                       locked_by := Some (WORKER_ID cfg),
                                       locked_at := Some now_upd, updated_at := now_upd\<rparr>
                                else x)
                        (agent_events d)\<rparr>)"
    using mem el by blast
qed

text \<open>The same on a table without an eligible row and on a table with one new event.\<close>

theorem lock_next_event_claims_eligible_row_witness:
  "distinct (map id_col (agent_events db7))
   \<and> \<not> (\<exists>e\<in>set (agent_events db7). eligible_spec cfg8 1000 e)
   \<and> lock_next_event cfg8 full_schema 1000 1000 db7 = (None, db7)
   \<and> distinct (map id_col (agent_events db_new))
   \<and> (\<exists>e\<in>set (agent_events db_new). eligible_spec cfg8 5 e)
   \<and> (\<exists>e\<in>set (agent_events db_new). eligible_spec cfg8 5 e \<and>
         lock_next_event cfg8 full_schema 5 6 db_new =
           (Some (e\<lparr>status := PROCESSING, attempts := attempts e + 1,
                    locked_by := Some (WORKER_ID cfg8), locked_at := Some 6,
                    updated_at := 6\<rparr>),
            db_new\<lparr>agent_events :=
                map (\<lambda>x. if id_col x = id_col e
                          then x\<lparr>status := PROCESSING, attempts := attempts x + 1,
                                 locked_by := Some (WORKER_ID cfg8),
                                 locked_at := Some 6, updated_at := 6\<rparr>
                          else x)
                  (agent_events db_new)\<rparr>))"
proof -
  have h1: "distinct (map id_col (agent_events db7))" by (simp add: db7_def)
  have h2: "\<forall>e\<in>set (agent_events db7). \<not> eligible_spec cfg8 1000 e"
    by (simp add: db7_def ev7_def eligible_spec_def)
  have h3: "distinct (map id_col (agent_events db_new))" by code_simp
  have h4: "\<exists>e\<in>set (agent_events db_new). eligible_spec cfg8 5 e" by code_simp
  show ?thesis
    using h1 h2 h3 h4
      lock_next_event_claims_eligible_row [OF h1, of cfg8 1000 1000]
      lock_next_event_claims_eligible_row [OF h3, of cfg8 5 6]
    by blast
qed



text \<open>
  C1 does not hold of the code. The claim: an event left in status \<open>PROCESSING\<close> is
  returned by a later \<open>claimNext\<close> once the lease TTL has elapsed since
  \<open>locked_at\<close>, with the lease taken over and \<open>attempts\<close> incremented. The
  \<open>WHERE\<close> clause of \<open>lock_next_event\<close> asks for status \<open>NEW\<close> or
  \<open>PENDING\<close> before it looks at the lease, so at every time, for every TTL and every
  set of columns, a row in status \<open>PROCESSING\<close> is not returned and stays in the table
  exactly as it was.
\<close>

theorem processing_event_never_reclaimed:
  assumes "distinct (map id_col (agent_events d))"
    and "e \<in> set (agent_events d)"
    and "status e = PROCESSING"
  shows "\<exists>r d'. lock_next_event cfg sch now_sel now_upd d = (r, d')
           \<and> map_option id_col r \<noteq> Some (id_col e)
           \<and> e \<in> set (agent_events d')"
proof (cases "select_candidate cfg sch now_sel (agent_events d)")
  case None
  then show ?thesis using assms(2) by (simp add: lock_next_event_None)
next
  case (Some c)
  have cm: "c \<in> set (agent_events d)" using Some by (rule select_candidate_SomeD(1))
  have "eligible cfg sch now_sel c" using Some by (rule select_candidate_SomeD(2))
  then have "status c \<noteq> PROCESSING" by (auto simp: eligible_def)
  then have "c \<noteq> e" using assms(3) by auto
  then have ne: "id_col c \<noteq> id_col e"
    using assms(1,2) cm by (auto simp: distinct_map inj_on_def)
  then have "e \<in> set (update_where_id (id_col c) (claim_row cfg sch now_upd) (agent_events d))"
    using assms(2) by (force simp: update_where_id_def)
  then show ?thesis
    using ne lock_next_event_Some [OF assms(1) Some, of now_upd]
    by (simp add: id_col_claim_row)
qed

text \<open>
  A row claimed by worker \<open>w1\<close> at second 90, with a TTL of 300 seconds, seen by worker
  \<open>w2\<close> at second 1000: nothing is returned.
\<close>

theorem processing_event_never_reclaimed_witness:
  "distinct (map id_col (agent_events db7)) \<and> ev7 \<in> set (agent_events db7)
   \<and> status ev7 = PROCESSING \<and> locked_at ev7 = Some 90
   \<and> 90 < (1000::int) - LOCK_TTL_SECONDS cfg8
   \<and> (\<exists>r d'. lock_next_event cfg8 full_schema 1000 1000 db7 = (r, d')
           \<and> map_option id_col r \<noteq> Some (id_col ev7)
           \<and> ev7 \<in> set (agent_events d'))
   \<and> fst (lock_next_event cfg8 full_schema 1000 1000 db7) = None"
proof -
  have h0: "fst (lock_next_event cfg8 full_schema 1000 1000 db7) = None" by code_simp
  have h1: "distinct (map id_col (agent_events db7))" by (simp add: db7_def)
  have h2: "ev7 \<in> set (agent_events db7)" by (simp add: db7_def)
  have h3: "status ev7 = PROCESSING" by (simp add: ev7_def)
  have h4: "locked_at ev7 = Some 90 \<and> 90 < (1000::int) - LOCK_TTL_SECONDS cfg8"
    by (simp add: ev7_def cfg8_def)
  show ?thesis
    using h0 h1 h2 h3 h4
      processing_event_never_reclaimed [OF h1 h2 h3, of cfg8 full_schema 1000 1000]
    by blast
qed

section \<open>An event that fails on every attempt\<close>

lemma not_claimable_not_eligible: "not_claimable x \<Longrightarrow> \<not> eligible cfg sch now x"
  by (auto simp: not_claimable_def eligible_def)

lemma filter_eligible_idle:
  "others_idle eid rows \<Longrightarrow> filter (eligible cfg sch now) rows = []"
  by (auto simp: others_idle_def list_all_iff filter_empty_conv not_claimable_not_eligible)

lemma update_idle:
  "others_idle eid rows \<Longrightarrow> update_where_id eid f rows = rows"
  unfolding update_where_id_def others_idle_def list_all_iff
  by (induction rows) auto

lemma select_idle:
  "others_idle eid rows \<Longrightarrow> select_by_id eid (rows @ ys) = select_by_id eid ys"
  unfolding select_by_id_def others_idle_def list_all_iff
  by (induction rows) auto

lemma update_around:
  "others_idle (id_col e) pre \<Longrightarrow> others_idle (id_col e) post \<Longrightarrow>
   update_where_id (id_col e) f (pre @ e # post) = pre @ f e # post"
proof -
  assume a: "others_idle (id_col e) pre" "others_idle (id_col e) post"
  have "update_where_id (id_col e) f (pre @ e # post) =
        update_where_id (id_col e) f pre @ f e # update_where_id (id_col e) f post"
    by (simp add: update_where_id_def)
  then show ?thesis using a by (simp add: update_idle)
qed

lemma select_around:
  "others_idle (id_col e) pre \<Longrightarrow> select_by_id (id_col e) (pre @ e # post) = Some e"
  by (simp add: select_idle) (simp add: select_by_id_def)

lemma select_candidate_around:
  assumes "others_idle (id_col e) pre" "others_idle (id_col e) post"
  shows "select_candidate cfg sch now (pre @ e # post) =
           (if eligible cfg sch now e then Some e else None)"
  using assms by (simp add: select_candidate_def filter_eligible_idle)

lemma lock_around:
  assumes "others_idle (id_col e) pre" "others_idle (id_col e) post"
    and "agent_events d = pre @ e # post"
    and "eligible cfg sch now e"
  shows "lock_next_event cfg sch now now_upd d =
           (Some (claim_row cfg sch now_upd e),
            d\<lparr>agent_events := pre @ claim_row cfg sch now_upd e # post\<rparr>)"
proof -
  have sc: "select_candidate cfg sch now (agent_events d) = Some e"
    using assms by (simp add: select_candidate_around)
  have up: "update_where_id (id_col e) (claim_row cfg sch now_upd) (agent_events d) =
            pre @ claim_row cfg sch now_upd e # post"
    using assms(1-3) by (simp add: update_around)
  have "others_idle (id_col (claim_row cfg sch now_upd e)) pre"
    using assms(1) by (simp add: id_col_claim_row)
  then have "select_by_id (id_col e) (pre @ claim_row cfg sch now_upd e # post) =
             Some (claim_row cfg sch now_upd e)"
    using select_around [of "claim_row cfg sch now_upd e" pre post]
    by (simp add: id_col_claim_row)
  then show ?thesis
    by (simp add: lock_next_event_def sc up Let_def)
qed

lemma lock_around_none:
  assumes "others_idle (id_col e) pre" "others_idle (id_col e) post"
    and "agent_events d = pre @ e # post"
    and "\<not> eligible cfg sch now e"
  shows "lock_next_event cfg sch now now_upd d = (None, d)"
  using assms by (simp add: lock_next_event_def select_candidate_around)

lemma mark_failed_around:
  assumes "others_idle (id_col e) pre" "others_idle (id_col e) post"
    and "agent_events d = pre @ e # post"
  shows "agent_events (mark_failed cfg now (id_col e) err d) =
           pre @ (if attempts e \<ge> effective_max_attempts cfg e
                  then failed_row now err e
                  else retry_row now err (backoff (attempts e)) e) # post"
proof -
  have s: "select_by_id (id_col e) (agent_events d) = Some e"
    using assms by (simp add: select_around)
  show ?thesis
  proof (cases "attempts e \<ge> effective_max_attempts cfg e")
    case True
    then have "mark_failed_branch cfg (id_col e) d = TerminalUpdate"
      by (simp add: mark_failed_branch_Some [OF s])
    then show ?thesis
      using True assms by (simp add: mark_failed_terminal(1) [OF s] update_around)
  next
    case False
    then have "mark_failed_branch cfg (id_col e) d = RetryUpdate"
      by (simp add: mark_failed_branch_Some [OF s])
    then show ?thesis
      using False assms by (simp add: mark_failed_retry(1) [OF s] update_around)
  qed
qed

lemma failing_attempts_stuck:
  assumes "others_idle (id_col e) pre" "others_idle (id_col e) post"
    and "agent_events d = pre @ e # post"
    and "status e = FAILED"
  shows "failing_attempts cfg sch k now d = d"
proof (cases k)
  case 0
  then show ?thesis by simp
next
  case (Suc j)
  have "\<not> eligible cfg sch now e" using assms(4) by (simp add: eligible_def)
  then have "lock_next_event cfg sch now now d = (None, d)"
    using assms(1-3) by (rule lock_around_none [rotated 3])
  then show ?thesis using Suc by simp
qed

lemma failing_attempts_count:
  assumes "others_idle (id_col e) pre" "others_idle (id_col e) post"
    and "agent_events d = pre @ e # post"
    and "status e = NEW \<or> status e = PENDING"
    and "locked_at e = None"
    and "available_at e \<le> now"
    and "attempts e < max_attempts e"
    and "0 \<le> attempts e"
  shows "\<exists>e'. agent_events (failing_attempts cfg sch k now d) = pre @ e' # post
           \<and> id_col e' = id_col e
           \<and> (status e' = FAILED) = (max_attempts e \<le> attempts e + int k)
           \<and> attempts e' = min (attempts e + int k) (max_attempts e)"
  using assms
proof (induction k arbitrary: e d now)
  case 0
  then show ?case by auto
next
  case (Suc k)
  let ?c = "claim_row cfg sch now e"
  let ?d1 = "d\<lparr>agent_events := pre @ ?c # post\<rparr>"
  have el: "eligible cfg sch now e"
    using Suc.prems by (auto simp: eligible_def)
  have lk: "lock_next_event cfg sch now now d = (Some ?c, ?d1)"
    using Suc.prems(1-3) el by (rule lock_around)
  have idc: "id_col ?c = id_col e" by (rule id_col_claim_row)
  have attc: "attempts ?c = attempts e + 1" by (simp add: claim_row_def)
  have maxc: "max_attempts ?c = max_attempts e" by (simp add: claim_row_def)
  have pos: "max_attempts e \<noteq> 0" using Suc.prems(7,8) by simp
  then have effc: "effective_max_attempts cfg ?c = max_attempts e"
    by (simp add: effective_max_attempts_def maxc)
  let ?d2 = "mark_failed cfg now (id_col ?c) ''RuntimeError: boom'' ?d1"
  have step: "failing_attempts cfg sch (Suc k) now d =
              failing_attempts cfg sch k (now + 600) ?d2"
    by (simp add: lk)
  have idle: "others_idle (id_col ?c) pre" "others_idle (id_col ?c) post"
    using Suc.prems(1,2) by (simp_all add: idc)
  have rows1: "agent_events ?d1 = pre @ ?c # post" by simp
  note mf = mark_failed_around [OF idle rows1, of cfg now "''RuntimeError: boom''"]
  show ?case
  proof (cases "attempts e + 1 \<ge> max_attempts e")
    case True
    let ?f = "failed_row now ''RuntimeError: boom'' ?c"
    have rows2: "agent_events ?d2 = pre @ ?f # post"
      using mf True by (simp add: effc attc)
    have idf: "id_col ?f = id_col e" by (simp add: id_col_failed_row idc)
    have stf: "status ?f = FAILED" by (simp add: failed_row_def)
    have idle_f: "others_idle (id_col ?f) pre" "others_idle (id_col ?f) post"
      using Suc.prems(1,2) by (simp_all only: idf)
    have "failing_attempts cfg sch k (now + 600) ?d2 = ?d2"
      using idle_f rows2 stf by (rule failing_attempts_stuck)
    then have "agent_events (failing_attempts cfg sch (Suc k) now d) = pre @ ?f # post"
      using step rows2 by simp
    moreover have "status ?f = FAILED" by (simp add: failed_row_def)
    moreover have "attempts ?f = attempts e + 1" by (simp add: failed_row_def attc)
    moreover have "max_attempts e = attempts e + 1" using True Suc.prems(7) by simp
    ultimately show ?thesis using idf by (intro exI [of _ ?f]) simp
  next
    case False
    let ?r = "retry_row now ''RuntimeError: boom'' (backoff (attempts ?c)) ?c"
    have rows2: "agent_events ?d2 = pre @ ?r # post"
      using mf False by (simp add: effc attc)
    have idr: "id_col ?r = id_col e" by (simp add: id_col_retry_row idc)
    have av: "available_at ?r \<le> now + 600"
      using backoff_bounds [of "attempts ?c"] by (simp add: retry_row_def)
    have idle_r: "others_idle (id_col ?r) pre" "others_idle (id_col ?r) post"
      using Suc.prems(1,2) by (simp_all only: idr)
    have str: "status ?r = NEW \<or> status ?r = PENDING" by (simp add: retry_row_def)
    have lr: "locked_at ?r = None" by (simp add: retry_row_def)
    have ar: "attempts ?r < max_attempts ?r"
      using False by (simp add: retry_row_def attc maxc)
    have nr: "0 \<le> attempts ?r"
      using Suc.prems(8) by (simp add: retry_row_def attc)
    have "\<exists>e'. agent_events (failing_attempts cfg sch k (now + 600) ?d2) = pre @ e' # post
           \<and> id_col e' = id_col ?r
           \<and> (status e' = FAILED) = (max_attempts ?r \<le> attempts ?r + int k)
           \<and> attempts e' = min (attempts ?r + int k) (max_attempts ?r)"
      using idle_r rows2 str lr av ar nr by (rule Suc.IH)
    moreover have "attempts ?r = attempts e + 1" "max_attempts ?r = max_attempts e"
      by (simp_all add: retry_row_def attc maxc)
    ultimately show ?thesis using step idr by (auto simp: algebra_simps)
  qed
qed

section \<open>A finished event under later operations\<close>

lemma exhaustedE:
  assumes "exhausted cfg eid d"
  obtains e where "select_by_id eid (agent_events d) = Some e"
    and "status e = FAILED \<or> status e = DONE"
    and "effective_max_attempts cfg e \<le> attempts e"
  using assms by (auto simp: exhausted_def split: option.splits)

lemma exhaustedI:
  "select_by_id eid (agent_events d) = Some e \<Longrightarrow> status e = FAILED \<or> status e = DONE \<Longrightarrow>
   effective_max_attempts cfg e \<le> attempts e \<Longrightarrow> exhausted cfg eid d"
  by (simp add: exhausted_def)

lemma select_by_id_append:
  "select_by_id eid rows = Some e \<Longrightarrow> select_by_id eid (rows @ ys) = Some e"
  unfolding select_by_id_def by (induction rows) (auto split: if_splits)

lemma enqueue_keeps:
  assumes "pk_ok d" "exhausted cfg eid d"
  shows "pk_ok (snd (enqueue_event cfg sch dumps now etype payload st prio run_at max_att
                   created_by corr d))"
    and "exhausted cfg eid (snd (enqueue_event cfg sch dumps now etype payload st prio run_at
                   max_att created_by corr d))"
proof -
  let ?row = "enqueue_row cfg sch dumps now (auto_increment d) etype payload st prio run_at
                max_att created_by corr"
  have idr: "id_col ?row = auto_increment d" by (simp add: enqueue_row_def)
  have rows: "agent_events (snd (enqueue_event cfg sch dumps now etype payload st prio run_at
                   max_att created_by corr d)) = agent_events d @ [?row]"
    and ai: "auto_increment (snd (enqueue_event cfg sch dumps now etype payload st prio run_at
                   max_att created_by corr d)) = Suc (auto_increment d)"
    by (simp_all add: enqueue_event_def Let_def)
  have lt: "\<forall>i\<in>set (map id_col (agent_events d)). i < auto_increment d"
    using assms(1) by (simp add: pk_ok_def list_all_iff)
  then have fresh: "auto_increment d \<notin> set (map id_col (agent_events d))" by blast
  have "\<forall>i\<in>set (map id_col (agent_events d)). i < Suc (auto_increment d)"
    using lt by auto
  then show "pk_ok (snd (enqueue_event cfg sch dumps now etype payload st prio run_at max_att
                   created_by corr d))"
    using assms(1) fresh by (simp add: pk_ok_def rows ai idr list_all_iff)
  from assms(2) obtain e where e: "select_by_id eid (agent_events d) = Some e"
    "status e = FAILED \<or> status e = DONE" "effective_max_attempts cfg e \<le> attempts e"
    by (rule exhaustedE)
  show "exhausted cfg eid (snd (enqueue_event cfg sch dumps now etype payload st prio run_at
                   max_att created_by corr d))"
    using e by (intro exhaustedI [of _ _ e]) (simp_all add: rows select_by_id_append)
qed

lemma pk_ok_update:
  "(\<And>x. id_col (f x) = id_col x) \<Longrightarrow> pk_ok d \<Longrightarrow>
   pk_ok (d\<lparr>agent_events := update_where_id eid f (agent_events d)\<rparr>)"
  by (simp add: pk_ok_def map_id_col_update)

lemma claim_keeps:
  assumes "pk_ok d" "exhausted cfg eid d"
    and "lock_next_event cfg' sch now_sel now_upd d = (r, d')"
  shows "map_option id_col r \<noteq> Some eid \<and> pk_ok d' \<and> exhausted cfg eid d'"
proof (cases "select_candidate cfg' sch now_sel (agent_events d)")
  case None
  then show ?thesis using assms by (simp add: lock_next_event_None)
next
  case (Some c)
  have dist: "distinct (map id_col (agent_events d))" using assms(1) by (simp add: pk_ok_def)
  from assms(2) obtain e where e: "select_by_id eid (agent_events d) = Some e"
    "status e = FAILED \<or> status e = DONE" "effective_max_attempts cfg e \<le> attempts e"
    by (rule exhaustedE)
  have cm: "c \<in> set (agent_events d)" using Some by (rule select_candidate_SomeD(1))
  have "eligible cfg' sch now_sel c" using Some by (rule select_candidate_SomeD(2))
  then have "status c = NEW \<or> status c = PENDING" by (simp add: eligible_def)
  then have "c \<noteq> e" using e(2) by auto
  moreover have "select_by_id (id_col c) (agent_events d) = Some c"
    using dist cm by (rule select_by_id_distinct)
  ultimately have ne: "id_col c \<noteq> eid" using e(1) by auto
  have res: "r = Some (claim_row cfg' sch now_upd c)"
    "d' = d\<lparr>agent_events :=
              update_where_id (id_col c) (claim_row cfg' sch now_upd) (agent_events d)\<rparr>"
    using assms(3) lock_next_event_Some [OF dist Some, of now_upd] by simp_all
  have "select_by_id eid (agent_events d') = Some e"
    using ne e(1) by (simp add: res(2) select_by_id_update_other id_col_claim_row)
  then have "exhausted cfg eid d'" using e(2,3) by (rule exhaustedI)
  moreover have "pk_ok d'"
    unfolding res(2) using assms(1) by (intro pk_ok_update) (simp_all add: id_col_claim_row)
  ultimately show ?thesis using ne by (simp add: res(1) id_col_claim_row)
qed

lemma done_row_limits:
  "effective_max_attempts cfg (done_row now e) = effective_max_attempts cfg e"
  "attempts (done_row now e) = attempts e" "status (done_row now e) = DONE"
  by (simp_all add: done_row_def effective_max_attempts_def)

lemma failed_row_limits:
  "effective_max_attempts cfg (failed_row now err e) = effective_max_attempts cfg e"
  "attempts (failed_row now err e) = attempts e" "status (failed_row now err e) = FAILED"
  by (simp_all add: failed_row_def effective_max_attempts_def)

lemma done_keeps:
  assumes "pk_ok d" "exhausted cfg eid d"
  shows "pk_ok (mark_done now x d) \<and> exhausted cfg eid (mark_done now x d)"
proof -
  from assms(2) obtain e where e: "select_by_id eid (agent_events d) = Some e"
    "status e = FAILED \<or> status e = DONE" "effective_max_attempts cfg e \<le> attempts e"
    by (rule exhaustedE)
  have pk: "pk_ok (mark_done now x d)"
    unfolding mark_done_def using assms(1) by (intro pk_ok_update) (simp_all add: id_col_done_row)
  have "exhausted cfg eid (mark_done now x d)"
  proof (cases "x = eid")
    case True
    have "select_by_id eid (agent_events (mark_done now eid d)) = Some (done_row now e)"
      using e(1) by (rule select_by_id_mark_done)
    then show ?thesis
      using e(3) True
      by (intro exhaustedI [of _ _ "done_row now e"]) (simp_all add: done_row_limits)
  next
    case False
    then have "select_by_id eid (agent_events (mark_done now x d)) = Some e"
      using e(1) by (simp add: mark_done_def select_by_id_update_other id_col_done_row)
    then show ?thesis using e(2,3) by (rule exhaustedI)
  qed
  then show ?thesis using pk by simp
qed

lemma pk_ok_mark_failed: "pk_ok d \<Longrightarrow> pk_ok (mark_failed cfg now x err d)"
  by (cases "mark_failed_branch cfg x d")
     (simp_all add: mark_failed_def pk_ok_def map_id_col_update id_col_failed_row
        id_col_retry_row)

lemma fail_exhausts:
  assumes "select_by_id eid (agent_events d) = Some e"
    and "effective_max_attempts cfg e \<le> attempts e"
  shows "exhausted cfg eid (mark_failed cfg now eid err d)"
proof -
  have "mark_failed_branch cfg eid d = TerminalUpdate"
    using assms(2) by (simp add: mark_failed_branch_Some [OF assms(1)])
  then have "select_by_id eid (agent_events (mark_failed cfg now eid err d)) =
             Some (failed_row now err e)"
    using assms(1) by (simp add: mark_failed_terminal(2))
  then show ?thesis
    using assms(2)
    by (intro exhaustedI [of _ _ "failed_row now err e"]) (simp_all add: failed_row_limits)
qed

lemma fail_keeps:
  assumes "pk_ok d" "exhausted cfg eid d"
  shows "pk_ok (mark_failed cfg now x err d) \<and> exhausted cfg eid (mark_failed cfg now x err d)"
proof -
  from assms(2) obtain e where e: "select_by_id eid (agent_events d) = Some e"
    "status e = FAILED \<or> status e = DONE" "effective_max_attempts cfg e \<le> attempts e"
    by (rule exhaustedE)
  have "exhausted cfg eid (mark_failed cfg now x err d)"
  proof (cases "x = eid")
    case True
    then show ?thesis using fail_exhausts [OF e(1) e(3)] by simp
  next
    case False
    then have "select_by_id eid (agent_events (mark_failed cfg now x err d)) = Some e"
      using e(1) by (simp add: mark_failed_other)
    then show ?thesis using e(2,3) by (rule exhaustedI)
  qed
  then show ?thesis using assms(1) by (simp add: pk_ok_mark_failed)
qed

lemma effective_max_worker:
  "effective_max_attempts (cfg\<lparr>WORKER_ID := w\<rparr>) e = effective_max_attempts cfg e"
  by (simp add: effective_max_attempts_def)

lemma apply_op_keeps:
  assumes "pk_ok d" "exhausted cfg eid d"
    and "apply_op cfg sch dumps x d = (r, d')"
  shows "r \<noteq> Some eid \<and> pk_ok d' \<and> exhausted cfg eid d'"
proof (cases x)
  case (OpEnqueue now etype payload st prio run_at max_att created_by corr)
  then show ?thesis
    using assms(3) enqueue_keeps [OF assms(1,2)] by auto
next
  case (OpClaim worker now_sel now_upd)
  obtain r0 where l: "lock_next_event (cfg\<lparr>WORKER_ID := worker\<rparr>) sch now_sel now_upd d = (r0, d')"
    and r: "r = map_option id_col r0"
    using assms(3) OpClaim by (auto split: prod.splits)
  show ?thesis
    using claim_keeps [OF assms(1,2) l] r by simp
next
  case (OpDone now y)
  then show ?thesis using assms(3) done_keeps [OF assms(1,2)] by auto
next
  case (OpFail now y err)
  then show ?thesis using assms(3) fail_keeps [OF assms(1,2)] by auto
qed

lemma run_ops_never_claims:
  "pk_ok d \<Longrightarrow> exhausted cfg eid d \<Longrightarrow> Some eid \<notin> set (fst (run_ops cfg sch dumps ops d))"
proof (induction ops arbitrary: d)
  case Nil
  then show ?case by simp
next
  case (Cons x xs)
  obtain r d' where a: "apply_op cfg sch dumps x d = (r, d')" by (cases "apply_op cfg sch dumps x d")
  have k: "r \<noteq> Some eid \<and> pk_ok d' \<and> exhausted cfg eid d'"
    using Cons.prems a by (rule apply_op_keeps)
  then have "Some eid \<notin> set (fst (run_ops cfg sch dumps xs d'))"
    using Cons.IH by blast
  then show ?case using k a by (auto split: prod.splits)
qed

section \<open>mark_failed\<close>

text \<open>
  C3, as stated, fails: the claim compares \<open>attempts\<close> with the stored
  \<open>max_attempts\<close>. \<open>mark_failed\<close> reads the limit as
  \<open>int(r.get("max_attempts") or MAX_EVENT_ATTEMPTS)\<close>, so a stored 0 stands for the
  configured default. A row with 1 attempt and \<open>max_attempts = 0\<close> has
  \<open>attempts \<ge> max_attempts\<close>, and with a default of 8 it goes back to \<open>NEW\<close>.
\<close>

theorem mark_failed_zero_limit_counterexample:
  "max_attempts ev3 \<le> attempts ev3
   \<and> select_by_id 1 (agent_events db3) = Some ev3
   \<and> map_option status (select_by_id 1 (agent_events (mark_failed cfg8 100 1 ''boom'' db3)))
       = Some NEW"
  by code_simp

text \<open>
  C3, amended. \<open>mark_failed\<close> compares the attempts of the row with its limit: the
  stored \<open>max_attempts\<close>, or the configured default when the stored value is 0.
  At or above the limit the row becomes \<open>FAILED\<close> with \<open>last_error\<close> set and the
  lease cleared, and no later sequence of enqueue, claim, mark_done and mark_failed calls
  of any worker claims the event again. Below the limit the row becomes \<open>NEW\<close> with
  \<open>last_error\<close> set, the lease cleared and \<open>available_at = now + backoff(attempts)\<close>.
  Hence a new event with \<open>max_attempts = N \<ge> 1\<close> that fails on every attempt is
  \<open>FAILED\<close> after \<open>k\<close> failures exactly when \<open>k \<ge> N\<close>, and its attempts stop
  at \<open>N\<close>.
\<close>

theorem mark_failed_effective_limit:
  "(select_by_id eid (agent_events d) = Some e \<and> effective_max_attempts cfg e \<le> attempts e \<longrightarrow>
      select_by_id eid (agent_events (mark_failed cfg now eid err d)) =
        Some (e\<lparr>status := FAILED, last_error := Some err, locked_by := None,
                locked_at := None, updated_at := now\<rparr>)
      \<and> (pk_ok d \<longrightarrow>
           Some eid \<notin> set (fst (run_ops cfg sch dumps ops (mark_failed cfg now eid err d)))))
   \<and> (select_by_id eid (agent_events d) = Some e \<and> attempts e < effective_max_attempts cfg e \<longrightarrow>
      select_by_id eid (agent_events (mark_failed cfg now eid err d)) =
        Some (e\<lparr>status := NEW, last_error := Some err, locked_by := None,
                locked_at := None, available_at := now + backoff (attempts e),
                updated_at := now\<rparr>))
   \<and> (agent_events db = pre @ ev # post
       \<and> others_idle (id_col ev) pre \<and> others_idle (id_col ev) post
       \<and> (status ev = NEW \<or> status ev = PENDING) \<and> attempts ev = 0 \<and> locked_at ev = None
       \<and> available_at ev \<le> t \<and> 1 \<le> max_attempts ev \<longrightarrow>
      (\<exists>ev'. agent_events (failing_attempts cfg sch k t db) = pre @ ev' # post
          \<and> id_col ev' = id_col ev
          \<and> (status ev' = FAILED) = (max_attempts ev \<le> int k)
          \<and> attempts ev' = min (int k) (max_attempts ev)))"
proof (intro conjI impI)
  assume h: "select_by_id eid (agent_events d) = Some e \<and> effective_max_attempts cfg e \<le> attempts e"
  then have br: "mark_failed_branch cfg eid d = TerminalUpdate"
    by (simp add: mark_failed_branch_Some [of eid d e])
  show "select_by_id eid (agent_events (mark_failed cfg now eid err d)) =
        Some (e\<lparr>status := FAILED, last_error := Some err, locked_by := None,
                locked_at := None, updated_at := now\<rparr>)"
    using h br mark_failed_terminal(2) [of eid d e cfg now err] by (simp add: failed_row_def)
  assume pk: "pk_ok d"
  have "pk_ok (mark_failed cfg now eid err d)" using pk by (rule pk_ok_mark_failed)
  moreover have "exhausted cfg eid (mark_failed cfg now eid err d)"
    using h by (intro fail_exhausts [of eid d e]) simp_all
  ultimately show "Some eid \<notin> set (fst (run_ops cfg sch dumps ops (mark_failed cfg now eid err d)))"
    by (rule run_ops_never_claims)
next
  assume h: "select_by_id eid (agent_events d) = Some e \<and> attempts e < effective_max_attempts cfg e"
  then have br: "mark_failed_branch cfg eid d = RetryUpdate"
    by (simp add: mark_failed_branch_Some [of eid d e])
  show "select_by_id eid (agent_events (mark_failed cfg now eid err d)) =
        Some (e\<lparr>status := NEW, last_error := Some err, locked_by := None,
                locked_at := None, available_at := now + backoff (attempts e),
                updated_at := now\<rparr>)"
    using h br mark_failed_retry(2) [of eid d e cfg now err] by (simp add: retry_row_def)
next
  assume h: "agent_events db = pre @ ev # post
       \<and> others_idle (id_col ev) pre \<and> others_idle (id_col ev) post
       \<and> (status ev = NEW \<or> status ev = PENDING) \<and> attempts ev = 0 \<and> locked_at ev = None
       \<and> available_at ev \<le> t \<and> 1 \<le> max_attempts ev"
  have "\<exists>e'. agent_events (failing_attempts cfg sch k t db) = pre @ e' # post
           \<and> id_col e' = id_col ev
           \<and> (status e' = FAILED) = (max_attempts ev \<le> attempts ev + int k)
           \<and> attempts e' = min (attempts ev + int k) (max_attempts ev)"
    using h by (intro failing_attempts_count) simp_all
  then show "\<exists>ev'. agent_events (failing_attempts cfg sch k t db) = pre @ ev' # post
          \<and> id_col ev' = id_col ev
          \<and> (status ev' = FAILED) = (max_attempts ev \<le> int k)
          \<and> attempts ev' = min (int k) (max_attempts ev)"
    using h by simp
qed

text \<open>
  The amended statement on a row at its 8th attempt of 8, followed by claims of three
  workers; on a row at its 1st attempt of 8; and on a new event with a limit of 8, which
  is \<open>FAILED\<close> after 8 failures and not after 7.
\<close>

theorem mark_failed_effective_limit_witness:
  "select_by_id 1 (agent_events db_last) = Some ev_last
   \<and> effective_max_attempts cfg8 ev_last \<le> attempts ev_last
   \<and> pk_ok db_last
   \<and> select_by_id 1 (agent_events (mark_failed cfg8 100 1 ''boom'' db_last)) =
        Some (ev_last\<lparr>status := FAILED, last_error := Some ''boom'', locked_by := None,
                locked_at := None, updated_at := 100\<rparr>)
   \<and> Some 1 \<notin> set (fst (run_ops cfg8 full_schema dumps_braces later_ops
                            (mark_failed cfg8 100 1 ''boom'' db_last)))
   \<and> select_by_id 1 (agent_events db7) = Some ev7
   \<and> attempts ev7 < effective_max_attempts cfg8 ev7
   \<and> select_by_id 1 (agent_events (mark_failed cfg8 100 1 ''boom'' db7)) =
        Some (ev7\<lparr>status := NEW, last_error := Some ''boom'', locked_by := None,
                locked_at := None, available_at := 100 + backoff (attempts ev7),
                updated_at := 100\<rparr>)
   \<and> agent_events db_new = [] @ ev_new # []
   \<and> others_idle (id_col ev_new) []
   \<and> (status ev_new = NEW \<or> status ev_new = PENDING) \<and> attempts ev_new = 0
   \<and> locked_at ev_new = None \<and> available_at ev_new \<le> 5 \<and> 1 \<le> max_attempts ev_new
   \<and> max_attempts ev_new = 8
   \<and> (\<exists>ev'. agent_events (failing_attempts cfg8 full_schema 8 5 db_new) = [] @ ev' # []
          \<and> id_col ev' = id_col ev_new
          \<and> (status ev' = FAILED) = (max_attempts ev_new \<le> int 8)
          \<and> attempts ev' = min (int 8) (max_attempts ev_new))
   \<and> (\<exists>ev'. agent_events (failing_attempts cfg8 full_schema 7 5 db_new) = [] @ ev' # []
          \<and> id_col ev' = id_col ev_new
          \<and> (status ev' = FAILED) = (max_attempts ev_new \<le> int 7)
          \<and> attempts ev' = min (int 7) (max_attempts ev_new))"
proof -
  have a1: "select_by_id 1 (agent_events db_last) = Some ev_last" by code_simp
  have a2: "effective_max_attempts cfg8 ev_last \<le> attempts ev_last" by code_simp
  have a3: "pk_ok db_last" by code_simp
  have b1: "select_by_id 1 (agent_events db7) = Some ev7" by code_simp
  have b2: "attempts ev7 < effective_max_attempts cfg8 ev7" by code_simp
  have c1: "agent_events db_new = [] @ ev_new # []" by code_simp
  have c2: "others_idle (id_col ev_new) []" by code_simp
  have c3: "(status ev_new = NEW \<or> status ev_new = PENDING) \<and> attempts ev_new = 0
     \<and> locked_at ev_new = None \<and> available_at ev_new \<le> 5 \<and> 1 \<le> max_attempts ev_new
     \<and> max_attempts ev_new = 8"
    by code_simp
  note A = mark_failed_effective_limit [where d = db_last and eid = 1 and e = ev_last
      and cfg = cfg8 and now = 100 and err = "''boom''" and sch = full_schema
      and dumps = dumps_braces and ops = later_ops]
  note B = mark_failed_effective_limit [where d = db7 and eid = 1 and e = ev7
      and cfg = cfg8 and now = 100 and err = "''boom''"]
  note C8 = mark_failed_effective_limit [where db = db_new and pre = "[]" and post = "[]"
      and ev = ev_new and cfg = cfg8 and sch = full_schema and k = 8 and t = 5]
  note C7 = mark_failed_effective_limit [where db = db_new and pre = "[]" and post = "[]"
      and ev = ev_new and cfg = cfg8 and sch = full_schema and k = 7 and t = 5]
  have ra: "select_by_id 1 (agent_events (mark_failed cfg8 100 1 ''boom'' db_last)) =
        Some (ev_last\<lparr>status := FAILED, last_error := Some ''boom'', locked_by := None,
                locked_at := None, updated_at := 100\<rparr>)
     \<and> Some 1 \<notin> set (fst (run_ops cfg8 full_schema dumps_braces later_ops
                            (mark_failed cfg8 100 1 ''boom'' db_last)))"
    using A a1 a2 a3 by blast
  have rb: "select_by_id 1 (agent_events (mark_failed cfg8 100 1 ''boom'' db7)) =
        Some (ev7\<lparr>status := NEW, last_error := Some ''boom'', locked_by := None,
                locked_at := None, available_at := 100 + backoff (attempts ev7),
                updated_at := 100\<rparr>)"
    using B b1 b2 by blast
  have rc8: "\<exists>ev'. agent_events (failing_attempts cfg8 full_schema 8 5 db_new) = [] @ ev' # []
          \<and> id_col ev' = id_col ev_new
          \<and> (status ev' = FAILED) = (max_attempts ev_new \<le> int 8)
          \<and> attempts ev' = min (int 8) (max_attempts ev_new)"
    using C8 c1 c2 c3 by blast
  have rc7: "\<exists>ev'. agent_events (failing_attempts cfg8 full_schema 7 5 db_new) = [] @ ev' # []
          \<and> id_col ev' = id_col ev_new
          \<and> (status ev' = FAILED) = (max_attempts ev_new \<le> int 7)
          \<and> attempts ev' = min (int 7) (max_attempts ev_new)"
    using C7 c1 c2 c3 by blast
  show ?thesis
    using a1 a2 a3 b1 b2 c1 c2 c3 ra rb rc8 rc7 by blast
qed

end
